theory Spec2Isabelle
  imports Main "HOL-Library.Word" "HOL-Library.Sublist"
begin

section \<open>JavaScript strings\<close>

text \<open>
  A JavaScript string is a sequence of UTF-16 code units. \<open>length\<close>, \<open>slice\<close> and the
  regular expressions of the source all count code units, so a string is a list of 16-bit
  words. \<open>js\<close> writes an ASCII literal.
\<close>

type_synonym jsstring = "16 word list"

definition js :: "string \<Rightarrow> jsstring" where
  "js s = map of_char s"

section \<open>URL helpers (url.ts)\<close>

text \<open>
  \<^verbatim>\<open>export type URLLike = { href: string; hash?: string }\<close>
  The optional \<open>hash\<close> is \<open>None\<close> when the property is missing.
\<close>

record URLLike =
  href :: jsstring
  hash :: "jsstring option"

text \<open>
  The dot of a regular expression without the \<open>s\<close> flag matches every code unit
  except the four line terminators LF, CR, U+2028 and U+2029.
\<close>

definition isLineTerminator :: "16 word \<Rightarrow> bool" where
  "isLineTerminator c = (c = 0x0A \<or> c = 0x0D \<or> c = 0x2028 \<or> c = 0x2029)"

text \<open>
  \<^verbatim>\<open>href.match(/#(.*)$/)\<close>: the engine tries each start position from the left. At a
  \<open>#\<close> the greedy \<open>.*\<close> has to reach the end of the input (\<open>$\<close> without the \<open>m\<close> flag),
  which it does exactly when no line terminator follows. The result is capture group 1.
\<close>

fun matchHashTail :: "jsstring \<Rightarrow> jsstring option" where
  "matchHashTail [] = None"
| "matchHashTail (c # cs) =
     (if c = 0x23 \<and> list_all (\<lambda>d. \<not> isLineTerminator d) cs then Some cs
      else matchHashTail cs)"

text \<open>
  \<^verbatim>\<open>
  export function getAnchor(url: URL | URLLike): string | undefined {
      if (url.hash && url.hash.length > 0) {
          return url.hash.slice(1);
      }
      const href = url.href || "";
      const match = href.match(/#(.*)$/);
      if (match) {
          return match[1];
      }
      return undefined;
  }
  \<close>
  \<open>None\<close> is \<open>undefined\<close>. A missing and an empty \<open>hash\<close> are both falsy.
\<close>

definition getAnchor :: "URLLike \<Rightarrow> jsstring option" where
  "getAnchor url =
     (case hash url of
        Some h \<Rightarrow> if h \<noteq> [] then Some (drop 1 h) else matchHashTail (href url)
      | None \<Rightarrow> matchHashTail (href url))"

text \<open>
  \<^verbatim>\<open>
  export function getRequestURL(url: URL | URLLike): string {
      const anchor: string | undefined = getAnchor(url);
      if (anchor != null) {
          return url.href.slice(0, -(anchor.length + 1));
      }
      return url.href;
  }
  \<close>
  \<open>slice(0, -n)\<close> ends at \<open>max (length - n) 0\<close>, which is the truncating subtraction
  of \<open>nat\<close>.
\<close>

definition getRequestURL :: "URLLike \<Rightarrow> jsstring" where
  "getRequestURL url =
     (case getAnchor url of
        Some anchor \<Rightarrow> take (length (href url) - (length anchor + 1)) (href url)
      | None \<Rightarrow> href url)"

definition toCacheKey :: "URLLike \<Rightarrow> jsstring" where
  "toCacheKey url = getRequestURL url"

text \<open>
  The relation between \<open>getAnchor\<close>, \<open>getRequestURL\<close> and \<open>href\<close>: the request URL is
  \<open>href\<close> with the anchor and its \<open>#\<close> taken off the end.
\<close>

definition fragmentStripped :: "URLLike \<Rightarrow> bool" where
  "fragmentStripped url =
     (case getAnchor url of
        None \<Rightarrow> getRequestURL url = href url
      | Some a \<Rightarrow> getRequestURL url @ [0x23] @ a = href url)"

text \<open>
  A \<open>hash\<close> agrees with \<open>href\<close> when it is missing or empty, or when \<open>href\<close> ends in
  \<open>#\<close> followed by \<open>hash.slice(1)\<close>. Every \<open>URL\<close> object is so: its \<open>hash\<close> is empty
  or \<open>#\<close> and the fragment, and its \<open>href\<close> ends in the same.
\<close>

definition hashAgreesWithHref :: "URLLike \<Rightarrow> bool" where
  "hashAgreesWithHref url =
     (case hash url of
        None \<Rightarrow> True
      | Some h \<Rightarrow> h = [] \<or> suffix (0x23 # drop 1 h) (href url))"

section \<open>DOM elements and selectors\<close>

text \<open>
  \<open>snapshot.ts\<close> hands every lookup to the platform: it builds a selector string and calls
  \<open>querySelector\<close> or \<open>querySelectorAll\<close> on the root element. What these calls do is
  fixed by the DOM and Selectors standards, and it is modelled here for the kind of
  selector the source builds: a comma-separated list of compound selectors made of an
  optional type selector, \<open>#id\<close>, \<open>[attr]\<close> and \<open>[attr=value]\<close> with ASCII identifiers
  and quoted strings without escapes.

  \<open>querySelector\<close> throws a \<open>SyntaxError\<close> on an invalid selector; \<open>SyntaxError\<close> below is
  that exception, and it is returned only where the text is invalid whatever follows.
  \<open>Unmodelled\<close> says that the text leaves the part of the selector language covered
  here (escapes, combinators, pseudo-classes, other attribute operators, input that
  ends inside a block); nothing is concluded from it.

  The document is an HTML document in no-quirks mode: element and attribute names are
  stored in lower case and compared after lower-casing the selector's, identifiers and
  the values of \<open>id\<close> and \<open>name\<close> are compared exactly.
\<close>

datatype dom_error = SyntaxError | Unmodelled

datatype simple_selector =
    TypeSelector jsstring
  | IdSelector jsstring
  | AttrPresent jsstring
  | AttrEquals jsstring jsstring

subsection \<open>Code units\<close>

definition isIdentStart :: "16 word \<Rightarrow> bool" where
  "isIdentStart c = ((0x61 \<le> c \<and> c \<le> 0x7A) \<or> (0x41 \<le> c \<and> c \<le> 0x5A) \<or> c = 0x5F)"

definition isIdentChar :: "16 word \<Rightarrow> bool" where
  "isIdentChar c = (isIdentStart c \<or> (0x30 \<le> c \<and> c \<le> 0x39) \<or> c = 0x2D)"

text \<open>A backslash starts an escape, and code units from U+0080 on may continue an
  identifier: both lead out of the ASCII identifiers covered here.\<close>

definition beyondAsciiIdent :: "16 word \<Rightarrow> bool" where
  "beyondAsciiIdent c = (c = 0x5C \<or> 0x80 \<le> c)"

definition isCssWhitespace :: "16 word \<Rightarrow> bool" where
  "isCssWhitespace c = (c = 0x20 \<or> c = 0x09 \<or> c = 0x0A)"

text \<open>
  Before it reads tokens the tokenizer rewrites its input: NUL becomes U+FFFD, form
  feed and carriage return become newlines, and a surrogate code unit that is not half
  of a pair becomes U+FFFD (a high surrogate followed by a low one is one code point
  and stays). A selector with any of these is left to \<open>Unmodelled\<close>.
\<close>

definition rewrittenByPreprocessing :: "16 word \<Rightarrow> bool" where
  "rewrittenByPreprocessing c = (c = 0 \<or> c = 0x0C \<or> c = 0x0D)"

definition isHighSurrogate :: "16 word \<Rightarrow> bool" where
  "isHighSurrogate c = (0xD800 \<le> c \<and> c \<le> 0xDBFF)"

definition isLowSurrogate :: "16 word \<Rightarrow> bool" where
  "isLowSurrogate c = (0xDC00 \<le> c \<and> c \<le> 0xDFFF)"

fun hasLoneSurrogate :: "jsstring \<Rightarrow> bool" where
  "hasLoneSurrogate [] = False"
| "hasLoneSurrogate [c] = (isHighSurrogate c \<or> isLowSurrogate c)"
| "hasLoneSurrogate (c # d # cs) =
     (if isHighSurrogate c \<and> isLowSurrogate d then hasLoneSurrogate cs
      else isHighSurrogate c \<or> isLowSurrogate c \<or> hasLoneSurrogate (d # cs))"

definition asciiLower :: "16 word \<Rightarrow> 16 word" where
  "asciiLower c = (if 0x41 \<le> c \<and> c \<le> 0x5A then c + 0x20 else c)"

definition skipWhitespace :: "jsstring \<Rightarrow> jsstring" where
  "skipWhitespace s = dropWhile isCssWhitespace s"

subsection \<open>Scanning identifiers, strings and attribute selectors\<close>

text \<open>
  \<open>scanIdent\<close> answers \<open>Inr (Some (name, rest))\<close> when the text starts with an identifier,
  \<open>Inr None\<close> when it does not start an identifier at all (a digit, a bracket, a lone
  hyphen, the end of the text), and \<open>Inl Unmodelled\<close> otherwise.
\<close>

definition scanIdent :: "jsstring \<Rightarrow> dom_error + (jsstring \<times> jsstring) option" where
  "scanIdent s =
     (case s of
        [] \<Rightarrow> Inr None
      | c # cs \<Rightarrow>
          if beyondAsciiIdent c then Inl Unmodelled
          else if isIdentStart c \<or> (c = 0x2D \<and> cs \<noteq> [] \<and> isIdentStart (hd cs)) then
            (let name = takeWhile isIdentChar s; rest = dropWhile isIdentChar s
             in if rest \<noteq> [] \<and> beyondAsciiIdent (hd rest) then Inl Unmodelled
                else Inr (Some (name, rest)))
          else if c = 0x2D \<and> cs \<noteq> [] \<and> (hd cs = 0x2D \<or> beyondAsciiIdent (hd cs))
            then Inl Unmodelled
          else Inr None)"

text \<open>A string runs from its opening quote \<open>q\<close> to the next \<open>q\<close>. A backslash, a newline
  or the end of the text before that is not covered.\<close>

definition scanString :: "16 word \<Rightarrow> jsstring \<Rightarrow> dom_error + (jsstring \<times> jsstring)" where
  "scanString q s =
     (let inBody = (\<lambda>c. c \<noteq> q \<and> c \<noteq> 0x5C \<and> c \<noteq> 0x0A)
      in case dropWhile inBody s of
           [] \<Rightarrow> Inl Unmodelled
         | c # rest \<Rightarrow> if c = q then Inr (takeWhile inBody s, rest) else Inl Unmodelled)"

definition scanValue :: "jsstring \<Rightarrow> dom_error + (jsstring \<times> jsstring)" where
  "scanValue s =
     (case s of
        [] \<Rightarrow> Inl Unmodelled
      | c # cs \<Rightarrow>
          if c = 0x27 \<or> c = 0x22 then scanString c cs
          else (case scanIdent s of
                  Inl e \<Rightarrow> Inl e
                | Inr None \<Rightarrow> Inl Unmodelled
                | Inr (Some (v, rest)) \<Rightarrow> Inr (v, rest)))"

text \<open>
  The text after an opening bracket: a name, then either the closing bracket or \<open>=\<close>, a
  value and the closing bracket. After the value the grammar allows one modifier
  identifier and then the closing bracket. A quote starts a string token, so a quote
  right after the value, or after one identifier that follows the value, makes the
  selector invalid: this is the \<open>SyntaxError\<close> of an interpolated value that contains
  the quote of the literal around it. Values are compared for \<open>id\<close> and \<open>name\<close> only.
\<close>

definition startsStringAfterIdent :: "jsstring \<Rightarrow> bool" where
  "startsStringAfterIdent s =
     (case scanIdent s of
        Inr (Some (modifier, rest)) \<Rightarrow>
          (case skipWhitespace rest of
             [] \<Rightarrow> False
           | q # following \<Rightarrow> q = 0x27 \<or> q = 0x22)
      | _ \<Rightarrow> False)"

definition scanAttribute :: "jsstring \<Rightarrow> dom_error + (simple_selector \<times> jsstring)" where
  "scanAttribute s =
     (case scanIdent (skipWhitespace s) of
        Inl e \<Rightarrow> Inl e
      | Inr None \<Rightarrow> Inl Unmodelled
      | Inr (Some (name, r1)) \<Rightarrow>
          (case skipWhitespace r1 of
             [] \<Rightarrow> Inl Unmodelled
           | c # r2 \<Rightarrow>
               if c = 0x5D then Inr (AttrPresent (map asciiLower name), r2)
               else if c = 0x3D then
                 (case scanValue (skipWhitespace r2) of
                    Inl e \<Rightarrow> Inl e
                  | Inr (v, r3) \<Rightarrow>
                      (case skipWhitespace r3 of
                         [] \<Rightarrow> Inl Unmodelled
                       | d # r4 \<Rightarrow>
                           if d = 0x27 \<or> d = 0x22 then Inl SyntaxError
                           else if d = 0x5D \<and> map asciiLower name \<in> {js ''id'', js ''name''}
                             then Inr (AttrEquals (map asciiLower name) v, r4)
                           else if startsStringAfterIdent (d # r4) then Inl SyntaxError
                           else Inl Unmodelled))
               else Inl Unmodelled))"

lemma length_skipWhitespace: "length (skipWhitespace s) \<le> length s"
  by (simp add: skipWhitespace_def length_dropWhile_le)

lemma skipWhitespace_Cons_shorter:
  "skipWhitespace s = c # rest \<Longrightarrow> length rest < length s"
  using length_skipWhitespace [of s] by simp

lemma scanIdent_shorter:
  "scanIdent s = Inr (Some (name, rest)) \<Longrightarrow> length rest \<le> length s"
proof -
  assume "scanIdent s = Inr (Some (name, rest))"
  then have "rest = dropWhile isIdentChar s"
    by (simp add: scanIdent_def Let_def split: list.splits if_splits)
  then show ?thesis by (simp add: length_dropWhile_le)
qed

lemma scanString_shorter:
  "scanString q s = Inr (v, rest) \<Longrightarrow> length rest \<le> length s"
proof -
  assume a: "scanString q s = Inr (v, rest)"
  let ?P = "\<lambda>c. c \<noteq> q \<and> c \<noteq> 0x5C \<and> c \<noteq> 0x0A"
  from a obtain c where "dropWhile ?P s = c # rest"
    by (auto simp: scanString_def Let_def split: list.splits if_splits)
  then have "length rest \<le> length (dropWhile ?P s)" by simp
  also have "\<dots> \<le> length s" by (rule length_dropWhile_le)
  finally show ?thesis .
qed

lemma scanValue_shorter:
  "scanValue s = Inr (v, rest) \<Longrightarrow> length rest \<le> length s"
  by (auto simp: scanValue_def split: list.splits if_splits sum.splits option.splits
           dest: scanString_shorter scanIdent_shorter)

lemma scanAttribute_shorter:
  assumes "scanAttribute s = Inr (a, rest)"
  shows "length rest \<le> length s"
proof -
  from assms obtain name r1 where
    i: "scanIdent (skipWhitespace s) = Inr (Some (name, r1))"
    by (auto simp: scanAttribute_def split: sum.splits option.splits)
  then have l1: "length r1 \<le> length s"
    using scanIdent_shorter length_skipWhitespace le_trans by blast
  from assms i obtain c r2 where w: "skipWhitespace r1 = c # r2"
    by (auto simp: scanAttribute_def split: list.splits)
  then have l2: "length r2 < length r1"
    by (rule skipWhitespace_Cons_shorter)
  show ?thesis
  proof (cases "c = 0x5D")
    case True
    with assms i w have "rest = r2" by (simp add: scanAttribute_def)
    with l1 l2 show ?thesis by simp
  next
    case False
    with assms i w obtain v r3 d where
      v: "scanValue (skipWhitespace r2) = Inr (v, r3)" and d: "skipWhitespace r3 = d # rest"
      by (auto simp: scanAttribute_def split: if_splits sum.splits list.splits)
    from v have "length r3 \<le> length r2"
      using scanValue_shorter length_skipWhitespace le_trans by blast
    moreover from d have "length rest < length r3"
      by (rule skipWhitespace_Cons_shorter)
    ultimately show ?thesis using l1 l2 by simp
  qed
qed

subsection \<open>Compound selectors and selector lists\<close>

text \<open>
  The simple selectors after the optional type selector. \<open>#\<close> has to be followed by an
  identifier: before a digit, a bracket or the end of the text the tokenizer produces a
  hash token that is no identifier, or a lone delimiter, and no selector contains
  either, so the text is invalid.
\<close>

function parseSubclasses ::
  "jsstring \<Rightarrow> simple_selector list \<Rightarrow> dom_error + (simple_selector list \<times> jsstring)" where
  "parseSubclasses s acc =
     (case s of
        [] \<Rightarrow> Inr (acc, [])
      | c # cs \<Rightarrow>
          if c = 0x23 then
            (case scanIdent cs of
               Inl e \<Rightarrow> Inl e
             | Inr None \<Rightarrow> Inl SyntaxError
             | Inr (Some (name, rest)) \<Rightarrow> parseSubclasses rest (acc @ [IdSelector name]))
          else if c = 0x5B then
            (case scanAttribute cs of
               Inl e \<Rightarrow> Inl e
             | Inr (a, rest) \<Rightarrow> parseSubclasses rest (acc @ [a]))
          else Inr (acc, s))"
  by pat_completeness auto
termination
proof (relation "measure (\<lambda>(s, acc). length s)")
  show "wf (measure (\<lambda>(s, acc). length s))" by simp
next
  fix s :: jsstring and acc :: "simple_selector list" and c cs x2 x2a name rest
  assume "s = c # cs" "scanIdent cs = Inr x2" "x2 = Some x2a" "(name, rest) = x2a"
  then show "((rest, acc @ [IdSelector name]), (s, acc)) \<in> measure (\<lambda>(s, acc). length s)"
    using scanIdent_shorter [of cs name rest] by simp
next
  fix s :: jsstring and acc :: "simple_selector list" and c cs x2 a rest
  assume "s = c # cs" "scanAttribute cs = Inr x2" "(a, rest) = x2"
  then show "((rest, acc @ [a]), (s, acc)) \<in> measure (\<lambda>(s, acc). length s)"
    using scanAttribute_shorter [of cs a rest] by simp
qed

declare parseSubclasses.simps [simp del]

lemma parseSubclasses_shorter:
  "parseSubclasses s acc = Inr (sel, rest) \<Longrightarrow> length rest \<le> length s"
proof (induction s acc rule: parseSubclasses.induct)
  case (1 s acc)
  show ?case
  proof (cases s)
    case Nil
    with "1.prems" show ?thesis by (simp add: parseSubclasses.simps)
  next
    case (Cons c cs)
    show ?thesis
    proof (cases "c = 0x23")
      case True
      with "1.prems" Cons obtain name r where
        i: "scanIdent cs = Inr (Some (name, r))" and
        p: "parseSubclasses r (acc @ [IdSelector name]) = Inr (sel, rest)"
        by (auto simp: parseSubclasses.simps [of "_ # _"] split: sum.splits option.splits)
      from "1.IH"(1) [OF Cons True i refl refl p] scanIdent_shorter [OF i] Cons
      show ?thesis by simp
    next
      case False
      note notHash = this
      show ?thesis
      proof (cases "c = 0x5B")
        case True
        with "1.prems" Cons notHash obtain a r where
          i: "scanAttribute cs = Inr (a, r)" and
          p: "parseSubclasses r (acc @ [a]) = Inr (sel, rest)"
          by (auto simp: parseSubclasses.simps [of "_ # _"] split: sum.splits)
        from "1.IH"(2) [OF Cons notHash True i refl p] scanAttribute_shorter [OF i] Cons
        show ?thesis by simp
      next
        case False
        with "1.prems" Cons notHash show ?thesis by (simp add: parseSubclasses.simps)
      qed
    qed
  qed
qed

definition parseCompoundSelector ::
  "jsstring \<Rightarrow> dom_error + (simple_selector list \<times> jsstring)" where
  "parseCompoundSelector s =
     (case scanIdent s of
        Inl e \<Rightarrow> Inl e
      | Inr None \<Rightarrow> parseSubclasses s []
      | Inr (Some (t, rest)) \<Rightarrow> parseSubclasses rest [TypeSelector (map asciiLower t)])"

lemma parseCompoundSelector_shorter:
  "parseCompoundSelector s = Inr (sel, rest) \<Longrightarrow> length rest \<le> length s"
  by (auto simp: parseCompoundSelector_def split: sum.splits option.splits
           dest!: parseSubclasses_shorter scanIdent_shorter)

text \<open>Compound selectors separated by commas. Anything else between two compound
  selectors would be a combinator.\<close>

function parseSelectorList :: "jsstring \<Rightarrow> dom_error + simple_selector list list" where
  "parseSelectorList s =
     (case parseCompoundSelector (skipWhitespace s) of
        Inl e \<Rightarrow> Inl e
      | Inr (compound, rest) \<Rightarrow>
          if compound = [] then Inl Unmodelled
          else (case skipWhitespace rest of
                  [] \<Rightarrow> Inr [compound]
                | c # following \<Rightarrow>
                    if c = 0x2C then
                      (case parseSelectorList following of
                         Inl e \<Rightarrow> Inl e
                       | Inr others \<Rightarrow> Inr (compound # others))
                    else Inl Unmodelled))"
  by pat_completeness auto
termination
proof (relation "measure length")
  show "wf (measure length)" by simp
next
  fix s :: jsstring and x2 compound rest c following
  assume "parseCompoundSelector (skipWhitespace s) = Inr x2" "(compound, rest) = x2"
    "skipWhitespace rest = c # following"
  then show "(following, s) \<in> measure length"
    using parseCompoundSelector_shorter [of "skipWhitespace s" compound rest]
      length_skipWhitespace [of s] skipWhitespace_Cons_shorter [of rest c following]
    by simp
qed

declare parseSelectorList.simps [simp del]

definition parseSelector :: "jsstring \<Rightarrow> dom_error + simple_selector list list" where
  "parseSelector s =
     (if list_ex rewrittenByPreprocessing s \<or> hasLoneSurrogate s then Inl Unmodelled
      else parseSelectorList s)"

subsection \<open>Elements and matching\<close>

text \<open>
  An element with its local name, its attributes and its child elements in document
  order. Text nodes take no part in any selector used here. \<open>descendants\<close> lists the
  elements below a node in document order (a node before its own descendants, then its
  later siblings), the order in which \<open>querySelectorAll\<close> returns them and in which
  \<open>querySelector\<close> picks the first.
\<close>

datatype element =
  Element (localName: jsstring) (attributes: "(jsstring \<times> jsstring) list")
    (childElements: "element list")

definition getAttribute :: "element \<Rightarrow> jsstring \<Rightarrow> jsstring option" where
  "getAttribute e name = map_of (attributes e) name"

fun descendants :: "element \<Rightarrow> element list" where
  "descendants (Element n as cs) = concat (map (\<lambda>c. c # descendants c) cs)"

fun matchesSimple :: "element \<Rightarrow> simple_selector \<Rightarrow> bool" where
  "matchesSimple e (TypeSelector t) = (localName e = t)"
| "matchesSimple e (IdSelector i) = (getAttribute e (js ''id'') = Some i)"
| "matchesSimple e (AttrPresent n) = (getAttribute e n \<noteq> None)"
| "matchesSimple e (AttrEquals n v) = (getAttribute e n = Some v)"

text \<open>An element matches a selector list when it matches every simple selector of one
  of its compound selectors.\<close>

definition matchesSelector :: "simple_selector list list \<Rightarrow> element \<Rightarrow> bool" where
  "matchesSelector sel e = list_ex (\<lambda>compound. list_all (matchesSimple e) compound) sel"

definition querySelectorAll :: "element \<Rightarrow> jsstring \<Rightarrow> dom_error + element list" where
  "querySelectorAll node selectors =
     (case parseSelector selectors of
        Inl e \<Rightarrow> Inl e
      | Inr sel \<Rightarrow> Inr (filter (matchesSelector sel) (descendants node)))"

definition querySelector :: "element \<Rightarrow> jsstring \<Rightarrow> dom_error + element option" where
  "querySelector node selectors =
     (case parseSelector selectors of
        Inl e \<Rightarrow> Inl e
      | Inr sel \<Rightarrow> Inr (find (matchesSelector sel) (descendants node)))"

section \<open>Snapshot (snapshot.ts)\<close>

text \<open>
  \<^verbatim>\<open>
  export class Snapshot {
      readonly element: Element;
      constructor(element: Element) { this.element = element; }
  \<close>
  The queries below read the subtree under \<open>element\<close> as it is at the call, an
  \<open>element\<close> value. The \<open>children\<close> accessor is about later mutation of the live node,
  and there \<open>element\<close> is a reference into a store; the record is polymorphic in what it
  holds.
\<close>

record 'e Snapshot =
  element :: 'e

text \<open>The argument \<^verbatim>\<open>anchor?: string | null\<close>.\<close>

datatype anchor_arg = Undefined | Null | Str jsstring

text \<open>
  \<^verbatim>\<open>
  getElementForAnchor(anchor?: string | null): Element | null {
      if (!anchor) return null;
      const selector = `[id='${anchor}'], a[name='${anchor}']`;
      return this.element.querySelector(selector) as Element | null;
  }
  \<close>
  \<open>undefined\<close>, \<open>null\<close> and the empty string are the falsy values of the argument. The
  template literal puts the anchor between the single quotes as it is.
\<close>

definition anchorSelector :: "jsstring \<Rightarrow> jsstring" where
  "anchorSelector anchor =
     js ''[id='' @ [0x27] @ anchor @ [0x27] @ js ''], a[name='' @ [0x27] @ anchor @ [0x27]
       @ js '']''"

definition getElementForAnchor ::
  "element Snapshot \<Rightarrow> anchor_arg \<Rightarrow> dom_error + element option" where
  "getElementForAnchor this anchor =
     (case anchor of
        Undefined \<Rightarrow> Inr None
      | Null \<Rightarrow> Inr None
      | Str a \<Rightarrow> if a = [] then Inr None else querySelector (element this) (anchorSelector a))"

text \<open>
  \<^verbatim>\<open>
  hasAnchor(anchor?: string | null): boolean {
      if (anchor == null || anchor === "") {
          return false;
      }
      return this.getElementForAnchor(anchor) !== null;
  }
  \<close>
\<close>

definition hasAnchor :: "element Snapshot \<Rightarrow> anchor_arg \<Rightarrow> dom_error + bool" where
  "hasAnchor this anchor =
     (case anchor of
        Undefined \<Rightarrow> Inr False
      | Null \<Rightarrow> Inr False
      | Str a \<Rightarrow>
          if a = [] then Inr False
          else (case getElementForAnchor this anchor of
                  Inl e \<Rightarrow> Inl e
                | Inr found \<Rightarrow> Inr (found \<noteq> None)))"

text \<open>The two ways an element can answer to an anchor: by its identifier, or as an
  \<open>a\<close> element by its name.\<close>

definition hasIdentifier :: "jsstring \<Rightarrow> element \<Rightarrow> bool" where
  "hasIdentifier a e = (getAttribute e (js ''id'') = Some a)"

definition isNamedAnchor :: "jsstring \<Rightarrow> element \<Rightarrow> bool" where
  "isNamedAnchor a e = (localName e = js ''a'' \<and> getAttribute e (js ''name'') = Some a)"

text \<open>
  An anchor that a single-quoted string of the selector denotes as it is written: no
  single quote, no backslash, no newline, nothing the tokenizer rewrites.
\<close>

definition quotedLiterally :: "jsstring \<Rightarrow> bool" where
  "quotedLiterally a =
     (list_all (\<lambda>c. c \<noteq> 0x27 \<and> c \<noteq> 0x5C \<and> c \<noteq> 0x0A \<and> \<not> rewrittenByPreprocessing c) a
      \<and> \<not> hasLoneSurrogate a)"

subsection \<open>Permanent elements\<close>

text \<open>
  \<^verbatim>\<open>
  export function getPermanentElementById(node: ParentNode, id: string): Element | null {
      return node.querySelector(`#${id}[data-turbo-permanent]`);
  }
  export function queryPermanentElementsAll(node: ParentNode): NodeListOf<Element> {
      return node.querySelectorAll("[id][data-turbo-permanent]");
  }
  \<close>
\<close>

definition getPermanentElementById :: "element \<Rightarrow> jsstring \<Rightarrow> dom_error + element option" where
  "getPermanentElementById node ident =
     querySelector node (js ''#'' @ ident @ js ''[data-turbo-permanent]'')"

definition queryPermanentElementsAll :: "element \<Rightarrow> dom_error + element list" where
  "queryPermanentElementsAll node = querySelectorAll node (js ''[id][data-turbo-permanent]'')"

text \<open>
  \<^verbatim>\<open>
  get permanentElements(): NodeListOf<Element> {
      return queryPermanentElementsAll(this.element);
  }
  getPermanentElementById(id: string): Element | null {
      return getPermanentElementById(this.element, id);
  }
  \<close>
  The method carries the prefix \<open>Snapshot_\<close>, the exported function has the plain name.
\<close>

definition permanentElements :: "element Snapshot \<Rightarrow> dom_error + element list" where
  "permanentElements this = queryPermanentElementsAll (element this)"

definition Snapshot_getPermanentElementById ::
  "element Snapshot \<Rightarrow> jsstring \<Rightarrow> dom_error + element option" where
  "Snapshot_getPermanentElementById this ident = getPermanentElementById (element this) ident"

text \<open>The \<open>id\<close> property of an element reflects its \<open>id\<close> attribute and is the empty
  string without one.\<close>

definition elementId :: "element \<Rightarrow> jsstring" where
  "elementId e = (case getAttribute e (js ''id'') of None \<Rightarrow> [] | Some v \<Rightarrow> v)"

text \<open>
  The result \<^verbatim>\<open>Record<string, [Element, Element]>\<close> starts as the object literal \<open>{}\<close>.
  Its own properties are a map from keys to pairs. An assignment \<open>obj[key] = pair\<close>
  stores an own property for every key but \<open>__proto__\<close>: that one is the accessor
  inherited from \<open>Object.prototype\<close>, and assigning an array to it replaces the prototype
  of the object and stores nothing.
\<close>

record permanentElementMap =
  ownProperties :: "jsstring \<rightharpoonup> element \<times> element"
  prototypeSetTo :: "(element \<times> element) option"

definition emptyObject :: permanentElementMap where
  "emptyObject = \<lparr>ownProperties = Map.empty, prototypeSetTo = None\<rparr>"

definition assignProperty ::
  "permanentElementMap \<Rightarrow> jsstring \<Rightarrow> element \<times> element \<Rightarrow> permanentElementMap" where
  "assignProperty obj key pair =
     (if key = js ''__proto__'' then obj\<lparr>prototypeSetTo := Some pair\<rparr>
      else obj\<lparr>ownProperties := (ownProperties obj)(key \<mapsto> pair)\<rparr>)"

text \<open>
  \<^verbatim>\<open>
  getPermanentElementMapForSnapshot(snapshot: Snapshot): Record<string, [Element, Element]> {
      const permanentElementMap: Record<string, [Element, Element]> = {}
      for (const currentPermanentElement of this.permanentElements) {
          const { id } = currentPermanentElement;
          const newPermanentElement = snapshot.getPermanentElementById(id);
          if (newPermanentElement) {
              permanentElementMap[id] = [currentPermanentElement, newPermanentElement];
          }
      }
      return permanentElementMap;
  }
  \<close>
  The loop is a recursion over the list of permanent elements; an exception of a lookup
  ends it.
\<close>

fun permanentElementMapLoop ::
  "element Snapshot \<Rightarrow> element list \<Rightarrow> permanentElementMap \<Rightarrow> dom_error + permanentElementMap"
  where
  "permanentElementMapLoop snapshot [] permanentElementMap = Inr permanentElementMap"
| "permanentElementMapLoop snapshot (currentPermanentElement # rest) permanentElementMap =
     (case Snapshot_getPermanentElementById snapshot (elementId currentPermanentElement) of
        Inl e \<Rightarrow> Inl e
      | Inr None \<Rightarrow> permanentElementMapLoop snapshot rest permanentElementMap
      | Inr (Some newPermanentElement) \<Rightarrow>
          permanentElementMapLoop snapshot rest
            (assignProperty permanentElementMap (elementId currentPermanentElement)
               (currentPermanentElement, newPermanentElement)))"

definition getPermanentElementMapForSnapshot ::
  "element Snapshot \<Rightarrow> element Snapshot \<Rightarrow> dom_error + permanentElementMap" where
  "getPermanentElementMapForSnapshot this snapshot =
     (case permanentElements this of
        Inl e \<Rightarrow> Inl e
      | Inr found \<Rightarrow> permanentElementMapLoop snapshot found emptyObject)"

text \<open>A permanent element: an \<open>id\<close> attribute and the \<open>data-turbo-permanent\<close> marker.\<close>

definition isPermanent :: "element \<Rightarrow> bool" where
  "isPermanent e =
     (getAttribute e (js ''id'') \<noteq> None \<and> getAttribute e (js ''data-turbo-permanent'') \<noteq> None)"

text \<open>
  An identifier that the selector \<open>#\<close> followed by it denotes as written: ASCII
  letters, digits, hyphens and underscores, starting with a letter or an underscore,
  or with a hyphen and then one of these.
\<close>

definition cssIdentifier :: "jsstring \<Rightarrow> bool" where
  "cssIdentifier s =
     (s \<noteq> [] \<and> list_all isIdentChar s
      \<and> (isIdentStart (hd s) \<or> (hd s = 0x2D \<and> tl s \<noteq> [] \<and> isIdentStart (hd (tl s)))))"

text \<open>A permanent element with the identifier \<open>k\<close>.\<close>

definition permanentWithId :: "jsstring \<Rightarrow> element \<Rightarrow> bool" where
  "permanentWithId k e =
     (getAttribute e (js ''id'') = Some k \<and> getAttribute e (js ''data-turbo-permanent'') \<noteq> None)"

subsection \<open>The children accessor and the live subtree\<close>

text \<open>
  \<^verbatim>\<open>
  get children(): Element[] {
      return Array.from(this.element.children as HTMLCollectionOf<Element>);
  }
  \<close>
  What matters for this accessor is aliasing: \<open>element.children\<close> is a live
  collection, a view of the node that changes with it, and \<open>Array.from\<close> makes a new
  array object. So nodes and arrays are references into a store. The store keeps, for
  every node, its child elements as they are now, and the contents of every array
  object; \<open>nextArray\<close> is the next unused array reference.
\<close>

type_synonym node_ref = nat

type_synonym array_ref = nat

record store =
  liveChildren :: "node_ref \<Rightarrow> node_ref list"
  arrays :: "array_ref \<rightharpoonup> node_ref list"
  nextArray :: array_ref

text \<open>A value that can be read as a sequence of elements: the live collection of a
  node, read from the node at every access, or an array object.\<close>

datatype element_sequence = HTMLCollection node_ref | ArrayObject array_ref

definition contents :: "store \<Rightarrow> element_sequence \<Rightarrow> node_ref list" where
  "contents st v =
     (case v of
        HTMLCollection node \<Rightarrow> liveChildren st node
      | ArrayObject a \<Rightarrow> (case arrays st a of None \<Rightarrow> [] | Some items \<Rightarrow> items))"

text \<open>\<open>Array.from\<close> reads its argument at the call and stores what it read in a new
  array object.\<close>

definition Array_from :: "element_sequence \<Rightarrow> store \<Rightarrow> element_sequence \<times> store" where
  "Array_from v st =
     (ArrayObject (nextArray st),
      st\<lparr>arrays := (arrays st)(nextArray st \<mapsto> contents st v), nextArray := Suc (nextArray st)\<rparr>)"

definition children :: "node_ref Snapshot \<Rightarrow> store \<Rightarrow> element_sequence \<times> store" where
  "children this st = Array_from (HTMLCollection (element this)) st"

text \<open>
  What can happen to the store afterwards: \<open>appendChild\<close> takes the child out of the
  node it is in and puts it last under the parent, \<open>removeChild\<close> takes it out of the
  parent, and any snapshot may be asked for its \<open>children\<close> again.
\<close>

datatype store_operation =
    AppendChild node_ref node_ref
  | RemoveChild node_ref node_ref
  | ReadChildren node_ref

fun perform :: "store \<Rightarrow> store_operation \<Rightarrow> store" where
  "perform st (AppendChild parent child) =
     st\<lparr>liveChildren := (\<lambda>node. if node = parent
                                then removeAll child (liveChildren st node) @ [child]
                                else removeAll child (liveChildren st node))\<rparr>"
| "perform st (RemoveChild parent child) =
     st\<lparr>liveChildren := (liveChildren st)(parent := removeAll child (liveChildren st parent))\<rparr>"
| "perform st (ReadChildren node) = snd (children \<lparr>element = node\<rparr> st)"

definition performAll :: "store \<Rightarrow> store_operation list \<Rightarrow> store" where
  "performAll st ops = foldl perform st ops"

section \<open>View (view.ts)\<close>

text \<open>
  \<open>view.ts\<close> is not among the sources; only its tests (\<open>view.test.ts\<close>) and a test plan
  are. The render state machine below is therefore written from the specification,
  section 4.2 (the contract of \<open>render\<close>), section 5 (ordering), section 6 (the Renderer
  and Delegate contracts) and section 7 (failures), and every definition says so.

  The pipeline is sequential; what is stated about it is the order of its steps and
  the state of the render-in-flight marker. A step is recorded as an \<open>event\<close> in the
  \<open>trace\<close> of the view, in the order in which the steps happen. An awaited promise of
  the Renderer is given by the way it settles. The one suspension that another party
  ends, the wait for \<open>resume()\<close>, splits the pipeline in two: \<open>View_render\<close> runs up to it,
  \<open>resume\<close> runs the rest.
\<close>

text \<open>Modelled from the spec: how an awaited promise of the Renderer, or the promise
  that \<open>render\<close> of the missing \<open>view.ts\<close> returns, settles (sections 4.2 and 7:
  success, or a rejection that propagates).\<close>

datatype settlement = Fulfilled | Rejected jsstring

text \<open>Modelled from the spec: the Renderer contract of section 6 (the interface is declared
  in the missing \<open>view.ts\<close>). \<open>prepareToRender\<close> and \<open>render\<close> are the settlements of the
  promises that the two methods return; \<open>finishRendering\<close> is a notification and appears
  as an event.
\<close>

record Renderer =
  shouldRender :: bool
  willRender :: bool
  reloadReason :: "jsstring option"
  isPreview :: bool
  renderMethod :: "jsstring option"
  prepareToRender :: settlement
  render :: settlement

text \<open>Modelled from the spec: the Delegate contract of section 6 (declared in the missing
  \<open>view.ts\<close>). \<open>allowsImmediateRender\<close> returns a boolean and is given the render method
  in its options; the other three methods are notifications and appear as events.
\<close>

record Delegate =
  allowsImmediateRender :: "jsstring option \<Rightarrow> bool"

text \<open>Modelled from the spec: the observable steps of \<open>render\<close> and \<open>invalidate\<close> of the
  missing \<open>view.ts\<close>, as sections 4.2 and 6 name them: establishing and clearing the
  render-in-flight marker, the four Delegate methods, \<open>markAsPreview\<close>, and the three
  Renderer methods.
\<close>

datatype event =
    RenderPromiseSet
  | AllowsImmediateRenderAsked "jsstring option"
  | MarkedAsPreview bool
  | PrepareToRenderCalled
  | RenderCalled
  | ViewRenderedSnapshot bool "jsstring option"
  | PreloadOnLoadLinksForView
  | FinishRenderingCalled
  | RenderPromiseCleared
  | ViewInvalidated "jsstring option"

text \<open>Modelled from the spec: the state of a View that section 3 and section 4.2 describe
  (the class is in the missing \<open>view.ts\<close>). \<open>renderPromise\<close> says whether the
  render-in-flight marker is present, \<open>awaitingResume\<close> holds the renderer of a pipeline
  that is suspended at the interception. Section 4.2 runs the Delegate notifications
  after a failed prepare or render, sections 7 and 9 leave that to the implementer:
  \<open>notifiesAfterFailure\<close> is that choice.
\<close>

record View =
  delegate :: Delegate
  notifiesAfterFailure :: bool
  renderPromise :: bool
  awaitingResume :: "Renderer option"
  trace :: "event list"

text \<open>Modelled from the spec: a View is created idle (section 4.2, initial state Idle;
  the constructor is in the missing \<open>view.ts\<close>).\<close>

definition newView :: "Delegate \<Rightarrow> bool \<Rightarrow> View" where
  "newView d policy =
     \<lparr>delegate = d, notifiesAfterFailure = policy, renderPromise = False,
      awaitingResume = None, trace = []\<rparr>"

text \<open>Modelled from the spec: the state Idle of section 4.2 (of the missing
  \<open>view.ts\<close>): no marker, nothing suspended.\<close>

definition idle :: "View \<Rightarrow> bool" where
  "idle v = (\<not> renderPromise v \<and> awaitingResume v = None)"

text \<open>Modelled from the spec: a step of the missing \<open>view.ts\<close> happens, after all
  earlier ones (section 5: one logical task queue).\<close>

definition emit :: "event \<Rightarrow> View \<Rightarrow> View" where
  "emit e v = v\<lparr>trace := trace v @ [e]\<rparr>"

text \<open>Modelled from the spec: \<open>invalidate(reason)\<close> of the missing \<open>view.ts\<close>, section 4.2:
  notify \<open>delegate.viewInvalidated(reason)\<close>.\<close>

definition invalidate :: "jsstring option \<Rightarrow> View \<Rightarrow> View" where
  "invalidate reason v = emit (ViewInvalidated reason) v"

text \<open>Modelled from the spec: \<open>markAsPreview\<close> of the missing \<open>view.ts\<close>, an attribute
  toggle on the root element with no other effect.\<close>

definition markAsPreview :: "bool \<Rightarrow> View \<Rightarrow> View" where
  "markAsPreview b v = emit (MarkedAsPreview b) v"

text \<open>Modelled from the spec: step 3 of section 4.2 (\<open>prepareToRenderSnapshot\<close> of the
  missing \<open>view.ts\<close>): \<open>markAsPreview(renderer.isPreview)\<close>, then await
  \<open>renderer.prepareToRender()\<close>.\<close>

definition prepareToRenderSnapshot :: "Renderer \<Rightarrow> View \<Rightarrow> settlement \<times> View" where
  "prepareToRenderSnapshot renderer v =
     (prepareToRender renderer, emit PrepareToRenderCalled (markAsPreview (isPreview renderer) v))"

text \<open>Modelled from the spec: step 4 of section 4.2 (\<open>renderSnapshot\<close> of the missing
  \<open>view.ts\<close>): await \<open>renderer.render()\<close>.\<close>

definition renderSnapshot :: "Renderer \<Rightarrow> View \<Rightarrow> settlement \<times> View" where
  "renderSnapshot renderer v = (render renderer, emit RenderCalled v)"

text \<open>Modelled from the spec: \<open>finishRenderingSnapshot\<close> of the missing \<open>view.ts\<close>, which
  invokes \<open>renderer.finishRendering()\<close>.\<close>

definition finishRenderingSnapshot :: "Renderer \<Rightarrow> View \<Rightarrow> View" where
  "finishRenderingSnapshot renderer v = emit FinishRenderingCalled v"

text \<open>Modelled from the spec: the notifications of step 5 of section 4.2, in its order:
  \<open>delegate.viewRenderedSnapshot\<close>, \<open>delegate.preloadOnLoadLinksForView\<close>,
  \<open>finishRenderingSnapshot\<close> (part of \<open>render\<close> in the missing \<open>view.ts\<close>).\<close>

definition notifyRendered :: "Renderer \<Rightarrow> View \<Rightarrow> View" where
  "notifyRendered renderer v =
     finishRenderingSnapshot renderer
       (emit PreloadOnLoadLinksForView
          (emit (ViewRenderedSnapshot (isPreview renderer) (renderMethod renderer)) v))"

text \<open>Modelled from the spec: the end of step 5, clear the render-in-flight marker
  (part of \<open>render\<close> in the missing \<open>view.ts\<close>).\<close>

definition clearRenderPromise :: "View \<Rightarrow> View" where
  "clearRenderPromise v = emit RenderPromiseCleared (v\<lparr>renderPromise := False\<rparr>)"

text \<open>Modelled from the spec: what follows a failed prepare or render (sections 4.2
  and 7; part of \<open>render\<close> in the missing \<open>view.ts\<close>): the notifications if the view
  runs them after a failure, and the clearing of the marker in any case.\<close>

definition cleanUpAfterFailure :: "Renderer \<Rightarrow> View \<Rightarrow> View" where
  "cleanUpAfterFailure renderer v =
     clearRenderPromise (if notifiesAfterFailure v then notifyRendered renderer v else v)"

text \<open>Modelled from the spec: steps 3 to 5 of section 4.2, the part of \<open>render\<close> (in the
  missing \<open>view.ts\<close>) after the interception: prepare, then render, then finalize. A
  rejection ends the steps before the finalize sequence and is the settlement of the
  call.\<close>

definition continueRender :: "Renderer \<Rightarrow> View \<Rightarrow> settlement \<times> View" where
  "continueRender renderer v =
     (case prepareToRenderSnapshot renderer v of
        (Rejected reason, v1) \<Rightarrow> (Rejected reason, cleanUpAfterFailure renderer v1)
      | (Fulfilled, v1) \<Rightarrow>
          (case renderSnapshot renderer v1 of
             (Rejected reason, v2) \<Rightarrow> (Rejected reason, cleanUpAfterFailure renderer v2)
           | (Fulfilled, v2) \<Rightarrow> (Fulfilled, clearRenderPromise (notifyRendered renderer v2))))"

text \<open>Modelled from the spec: the promise that \<open>render\<close> of the missing \<open>view.ts\<close>
  returns has settled, or the pipeline is suspended at the interception and the
  promise is pending (section 4.2, step 2).\<close>

datatype render_result = Settled settlement | Pending

text \<open>Modelled from the spec: \<open>render(renderer)\<close> of the missing \<open>view.ts\<close>, section 4.2,
  steps 1 and 2. Without \<open>shouldRender\<close>: \<open>invalidate(renderer.reloadReason)\<close> if
  \<open>willRender\<close>, else nothing. With \<open>shouldRender\<close>: establish the marker, ask the
  Delegate, and continue at once or suspend until \<open>resume()\<close>.
\<close>

definition View_render :: "Renderer \<Rightarrow> View \<Rightarrow> render_result \<times> View" where
  "View_render renderer v =
     (if shouldRender renderer then
        (let v1 = emit RenderPromiseSet (v\<lparr>renderPromise := True\<rparr>);
             v2 = emit (AllowsImmediateRenderAsked (renderMethod renderer)) v1
         in if allowsImmediateRender (delegate v2) (renderMethod renderer)
            then (case continueRender renderer v2 of (s, v3) \<Rightarrow> (Settled s, v3))
            else (Pending, v2\<lparr>awaitingResume := Some renderer\<rparr>))
      else if willRender renderer then (Settled Fulfilled, invalidate (reloadReason renderer) v)
      else (Settled Fulfilled, v))"

text \<open>Modelled from the spec: the \<open>resume\<close> callable that \<open>render\<close> (in the missing
  \<open>view.ts\<close>) passes to the Delegate, section 4.2: a one-shot continuation without
  arguments. It lets a suspended pipeline run to its end and the promise of \<open>render\<close>
  settle (\<open>Some\<close> of the settlement); called again, or with nothing suspended, it does
  nothing (\<open>None\<close>).
\<close>

definition resume :: "View \<Rightarrow> settlement option \<times> View" where
  "resume v =
     (case awaitingResume v of
        None \<Rightarrow> (None, v)
      | Some renderer \<Rightarrow>
          (case continueRender renderer (v\<lparr>awaitingResume := None\<rparr>) of
             (s, v') \<Rightarrow> (Some s, v')))"

text \<open>Modelled from the spec: the settlement of a pipeline (of the missing
  \<open>view.ts\<close>) that is not suspended for ever, section 7: the first rejection of the
  Renderer, or fulfilment.\<close>

definition rendererSettlement :: "Renderer \<Rightarrow> settlement" where
  "rendererSettlement renderer =
     (case prepareToRender renderer of
        Rejected reason \<Rightarrow> Rejected reason
      | Fulfilled \<Rightarrow> render renderer)"

text \<open>Modelled from the spec: the marker of the missing \<open>view.ts\<close> is present for
  the duration of a call (section 4.2, step 2): the trace of the call starts with the
  setting of the marker, ends with its clearing, and neither happens in between.\<close>

definition markerHeldThroughout :: "event list \<Rightarrow> bool" where
  "markerHeldThroughout es =
     (2 \<le> length es \<and> hd es = RenderPromiseSet \<and> last es = RenderPromiseCleared
      \<and> list_all (\<lambda>e. e \<noteq> RenderPromiseSet \<and> e \<noteq> RenderPromiseCleared) (butlast (tl es)))"

section \<open>Example documents, renderers and delegates\<close>

text \<open>A document in which the named anchor \<open>top\<close> comes before the heading with the
  identifier \<open>top\<close>.\<close>

definition nameBeforeId :: element where
  "nameBeforeId =
     Element (js ''div'') []
       [Element (js ''a'') [(js ''name'', js ''top'')] [],
        Element (js ''h1'') [(js ''id'', js ''top'')] []]"

text \<open>A document with a heading whose identifier has an apostrophe.\<close>

definition apostropheDocument :: element where
  "apostropheDocument =
     Element (js ''div'') [] [Element (js ''h2'') [(js ''id'', js ''what's-new'')] []]"

text \<open>A root with one permanent element whose identifier is a number.\<close>

definition numericIdRoot :: element where
  "numericIdRoot =
     Element (js ''div'') []
       [Element (js ''div'') [(js ''id'', js ''1''), (js ''data-turbo-permanent'', [])] []]"

text \<open>The documents of the tests in \<open>snapshot.test.ts\<close>: a container with a named
  anchor, and a current and a new root that share the permanent element \<open>p1\<close> and
  have one more permanent element each.\<close>

definition anchorContainer :: element where
  "anchorContainer =
     Element (js ''div'') [] [Element (js ''a'') [(js ''name'', js ''my-anchor'')] []]"

definition currentRoot :: element where
  "currentRoot =
     Element (js ''div'') []
       [Element (js ''div'') [(js ''id'', js ''p1''), (js ''data-turbo-permanent'', []),
                               (js ''class'', js ''old'')] [],
        Element (js ''div'') [(js ''id'', js ''gone''), (js ''data-turbo-permanent'', [])] []]"

definition newRoot :: element where
  "newRoot =
     Element (js ''div'') []
       [Element (js ''div'') [(js ''id'', js ''p1''), (js ''data-turbo-permanent'', []),
                               (js ''class'', js ''new'')] [],
        Element (js ''div'') [(js ''id'', js ''added''), (js ''data-turbo-permanent'', [])] []]"

text \<open>A root with one permanent element whose identifier is \<open>__proto__\<close>.\<close>

definition protoRoot :: element where
  "protoRoot =
     Element (js ''div'') []
       [Element (js ''div'') [(js ''id'', js ''__proto__''), (js ''data-turbo-permanent'', [])] []]"

text \<open>Two renderers and two delegates to run the machine on.\<close>

definition pageRenderer :: Renderer where
  "pageRenderer =
     \<lparr>shouldRender = True, willRender = True, reloadReason = None, isPreview = False,
      renderMethod = Some (js ''replace''), prepareToRender = Fulfilled, render = Fulfilled\<rparr>"

definition staleRenderer :: Renderer where
  "staleRenderer =
     \<lparr>shouldRender = False, willRender = True, reloadReason = Some (js ''test-reason''),
      isPreview = False, renderMethod = None, prepareToRender = Fulfilled, render = Fulfilled\<rparr>"

definition allowingDelegate :: Delegate where
  "allowingDelegate = \<lparr>allowsImmediateRender = (\<lambda>method. True)\<rparr>"

definition interceptingDelegate :: Delegate where
  "interceptingDelegate = \<lparr>allowsImmediateRender = (\<lambda>method. False)\<rparr>"

text \<open>A renderer whose \<open>prepareToRender\<close> rejects.\<close>

definition failingRenderer :: Renderer where
  "failingRenderer = pageRenderer\<lparr>prepareToRender := Rejected (js ''prepare failed'')\<rparr>"

section \<open>Properties of the URL helpers\<close>

lemma matchHashTail_split:
  "matchHashTail s = Some a \<Longrightarrow> take (length s - (length a + 1)) s @ 0x23 # a = s"
proof (induction s)
  case Nil
  then show ?case by simp
next
  case (Cons c cs)
  show ?case
  proof (cases "c = 0x23 \<and> list_all (\<lambda>d. \<not> isLineTerminator d) cs")
    case True
    with Cons.prems have "a = cs" by simp
    with True show ?thesis by simp
  next
    case False
    with Cons.prems have m: "matchHashTail cs = Some a" by auto
    from Cons.IH [OF m] have eq: "take (length cs - (length a + 1)) cs @ 0x23 # a = cs" .
    then have "length a + 1 \<le> length cs"
      by (metis add.commute length_Cons length_append le_add1 plus_1_eq_Suc)
    then have "length (c # cs) - (length a + 1) = Suc (length cs - (length a + 1))"
      by simp
    with eq show ?thesis by simp
  qed
qed

lemma fragmentStripped_fallback:
  assumes "hash url = None \<or> hash url = Some []"
  shows "fragmentStripped url"
proof (cases "matchHashTail (href url)")
  case None
  with assms show ?thesis
    by (auto simp: fragmentStripped_def getAnchor_def getRequestURL_def)
next
  case (Some a)
  from matchHashTail_split [OF Some] Some assms show ?thesis
    by (auto simp: fragmentStripped_def getAnchor_def getRequestURL_def)
qed

lemma fragmentStripped_hash:
  assumes "hash url = Some h" "h \<noteq> []"
  shows "fragmentStripped url \<longleftrightarrow> suffix (0x23 # drop 1 h) (href url)"
proof -
  from assms obtain c f where h: "h = c # f" by (cases h) auto
  have anchor: "getAnchor url = Some f"
    using assms h by (simp add: getAnchor_def)
  have req: "getRequestURL url = take (length (href url) - length h) (href url)"
    using anchor h by (simp add: getRequestURL_def)
  show ?thesis
  proof
    assume "fragmentStripped url"
    then have "take (length (href url) - length h) (href url) @ 0x23 # f = href url"
      using anchor req by (simp add: fragmentStripped_def)
    then show "suffix (0x23 # drop 1 h) (href url)"
      unfolding suffix_def h by (metis drop0 drop_Suc_Cons One_nat_def)
  next
    assume "suffix (0x23 # drop 1 h) (href url)"
    then obtain p where "href url = p @ 0x23 # f"
      using h by (auto simp: suffix_def)
    then show "fragmentStripped url"
      using anchor req h by (simp add: fragmentStripped_def)
  qed
qed

text \<open>
  C10, as the code has it. \<open>getRequestURL\<close> (and \<open>toCacheKey\<close>, which is the same
  function) gives back \<open>href\<close> when there is no anchor, and otherwise a string that
  followed by \<open>#\<close> and the anchor is \<open>href\<close>, exactly for the values whose \<open>hash\<close> agrees
  with their \<open>href\<close>: a missing or empty \<open>hash\<close> (the anchor then comes from \<open>href\<close>
  itself, the bare trailing \<open>#\<close> included), or an \<open>href\<close> that ends in \<open>#\<close> and
  \<open>hash.slice(1)\<close>.
\<close>

theorem getRequestURL_strips_fragment:
  "toCacheKey url = getRequestURL url \<and> (fragmentStripped url \<longleftrightarrow> hashAgreesWithHref url)"
proof (cases "hash url")
  case None
  then show ?thesis
    using fragmentStripped_fallback [of url]
    by (simp add: hashAgreesWithHref_def toCacheKey_def)
next
  case (Some h)
  show ?thesis
  proof (cases "h = []")
    case True
    with Some show ?thesis
      using fragmentStripped_fallback [of url]
      by (simp add: hashAgreesWithHref_def toCacheKey_def)
  next
    case False
    with Some show ?thesis
      using fragmentStripped_hash [of url h]
      by (simp add: hashAgreesWithHref_def toCacheKey_def)
  qed
qed

theorem getRequestURL_strips_fragment_witness:
  "hashAgreesWithHref \<lparr>href = js ''https://a.com/page#'', hash = Some []\<rparr>
   \<and> getAnchor \<lparr>href = js ''https://a.com/page#'', hash = Some []\<rparr> = Some []
   \<and> toCacheKey \<lparr>href = js ''https://a.com/page#'', hash = Some []\<rparr> = js ''https://a.com/page''
   \<and> fragmentStripped \<lparr>href = js ''https://a.com/page#'', hash = Some []\<rparr>"
proof -
  let ?u = "\<lparr>href = js ''https://a.com/page#'', hash = Some []\<rparr>"
  have a: "hashAgreesWithHref ?u"
    by (simp add: hashAgreesWithHref_def)
  have b: "getAnchor ?u = Some []"
    by (simp add: getAnchor_def js_def)
  have c: "getRequestURL ?u = js ''https://a.com/page''"
    by (simp add: getRequestURL_def b) (simp add: js_def)
  from a b c getRequestURL_strips_fragment [of ?u] show ?thesis
    by simp
qed

text \<open>
  C10 as stated fails on a URL-like value whose \<open>hash\<close> is not the end of its \<open>href\<close>:
  \<open>getAnchor\<close> trusts \<open>hash\<close>, and \<open>getRequestURL\<close> cuts that many code units off an
  \<open>href\<close> that has no fragment.
\<close>

theorem getRequestURL_foreign_hash_counterexample:
  "getAnchor \<lparr>href = js ''https://a.com/page'', hash = Some (js ''#foo'')\<rparr> = Some (js ''foo'')
   \<and> getRequestURL \<lparr>href = js ''https://a.com/page'', hash = Some (js ''#foo'')\<rparr>
       = js ''https://a.com/''
   \<and> getRequestURL \<lparr>href = js ''https://a.com/page'', hash = Some (js ''#foo'')\<rparr>
       @ js ''#'' @ js ''foo'' \<noteq> js ''https://a.com/page''"
  by (simp add: getRequestURL_def getAnchor_def js_def)

section \<open>Properties of Snapshot\<close>

subsection \<open>Evaluating and parsing the selectors of the source\<close>

named_theorems selector_eval

declare parseSelector_def [selector_eval]
declare parseSelectorList.simps [selector_eval]
declare parseSubclasses.simps [selector_eval]
declare parseCompoundSelector_def [selector_eval]
declare scanAttribute_def [selector_eval]
declare startsStringAfterIdent_def [selector_eval]
declare scanValue_def [selector_eval]
declare scanIdent_def [selector_eval]
declare skipWhitespace_def [selector_eval]
declare isCssWhitespace_def [selector_eval]
declare isIdentStart_def [selector_eval]
declare isIdentChar_def [selector_eval]
declare beyondAsciiIdent_def [selector_eval]
declare rewrittenByPreprocessing_def [selector_eval]
declare isHighSurrogate_def [selector_eval]
declare isLowSurrogate_def [selector_eval]
declare asciiLower_def [selector_eval]
declare js_def [selector_eval]

lemma scanString_quotedLiterally:
  assumes "quotedLiterally a"
  shows "scanString 0x27 (a @ 0x27 # rest) = Inr (a, rest)"
proof -
  let ?P = "\<lambda>c::16 word. c \<noteq> 0x27 \<and> c \<noteq> 0x5C \<and> c \<noteq> 0x0A"
  from assms have "\<And>x. x \<in> set a \<Longrightarrow> ?P x"
    by (auto simp: quotedLiterally_def list_all_iff)
  then have "takeWhile ?P (a @ 0x27 # rest) = a" "dropWhile ?P (a @ 0x27 # rest) = 0x27 # rest"
    by (simp_all add: takeWhile_append2 dropWhile_append2)
  then show ?thesis
    by (simp add: scanString_def)
qed

lemma hasLoneSurrogate_Cons:
  "\<not> isHighSurrogate p \<Longrightarrow> \<not> isLowSurrogate p \<Longrightarrow>
     hasLoneSurrogate (p # xs) = hasLoneSurrogate xs"
  by (cases xs) simp_all

lemma hasLoneSurrogate_append_Cons:
  "\<not> isHighSurrogate q \<Longrightarrow> \<not> isLowSurrogate q \<Longrightarrow>
     hasLoneSurrogate (a @ q # r) = (hasLoneSurrogate a \<or> hasLoneSurrogate r)"
proof (induction a rule: hasLoneSurrogate.induct)
  case 1
  then show ?case by (simp add: hasLoneSurrogate_Cons)
next
  case (2 c)
  then show ?case by (simp add: hasLoneSurrogate_Cons)
next
  case (3 c d cs)
  then show ?case by simp
qed

lemma no_surrogate_no_lone:
  "list_all (\<lambda>c. \<not> isHighSurrogate c \<and> \<not> isLowSurrogate c) xs \<Longrightarrow> \<not> hasLoneSurrogate xs"
  by (induction xs rule: hasLoneSurrogate.induct) simp_all

lemma anchorSelector_not_rewritten:
  assumes "quotedLiterally a"
  shows "\<not> list_ex rewrittenByPreprocessing (anchorSelector a)"
    and "\<not> hasLoneSurrogate (anchorSelector a)"
proof -
  show "\<not> list_ex rewrittenByPreprocessing (anchorSelector a)"
    using assms
    by (auto simp: anchorSelector_def quotedLiterally_def list_ex_iff list_all_iff js_def
        rewrittenByPreprocessing_def)
  have q: "\<not> isHighSurrogate (0x27 :: 16 word)" "\<not> isLowSurrogate (0x27 :: 16 word)"
    by (simp_all add: isHighSurrogate_def isLowSurrogate_def)
  from assms have "\<not> hasLoneSurrogate a"
    by (simp add: quotedLiterally_def)
  then show "\<not> hasLoneSurrogate (anchorSelector a)"
    by (simp add: anchorSelector_def js_def hasLoneSurrogate_append_Cons [OF q]
        hasLoneSurrogate_Cons isHighSurrogate_def isLowSurrogate_def)
qed

lemma parseSelectorList_anchorSelector:
  assumes "quotedLiterally a"
  shows "parseSelectorList (anchorSelector a) =
           Inr [[AttrEquals (js ''id'') a], [TypeSelector (js ''a''), AttrEquals (js ''name'') a]]"
  using assms
  by (simp add: anchorSelector_def selector_eval scanString_quotedLiterally)

lemma parseSelector_anchorSelector:
  assumes "quotedLiterally a"
  shows "parseSelector (anchorSelector a) =
           Inr [[AttrEquals (js ''id'') a], [TypeSelector (js ''a''), AttrEquals (js ''name'') a]]"
  using anchorSelector_not_rewritten [OF assms] parseSelectorList_anchorSelector [OF assms]
  by (simp add: parseSelector_def)

lemma matchesSelector_anchor:
  "matchesSelector
     [[AttrEquals (js ''id'') a], [TypeSelector (js ''a''), AttrEquals (js ''name'') a]]
     = (\<lambda>e. hasIdentifier a e \<or> isNamedAnchor a e)"
  by (rule ext) (simp add: matchesSelector_def hasIdentifier_def isNamedAnchor_def)

lemma find_cong_on_set: "(\<And>x. x \<in> set xs \<Longrightarrow> P x = Q x) \<Longrightarrow> find P xs = find Q xs"
  by (induction xs) auto

subsection \<open>Anchors\<close>

text \<open>For a non-empty anchor that the quoted string denotes as written, both methods
  return normally, with the first match in document order.\<close>

lemma getElementForAnchor_quotedLiterally:
  assumes "a \<noteq> []" "quotedLiterally a"
  shows "getElementForAnchor this (Str a)
           = Inr (find (\<lambda>e. hasIdentifier a e \<or> isNamedAnchor a e) (descendants (element this)))"
  using assms
  by (simp add: getElementForAnchor_def querySelector_def parseSelector_anchorSelector
      matchesSelector_anchor)

lemma hasAnchor_quotedLiterally:
  assumes "a \<noteq> []" "quotedLiterally a"
  shows "hasAnchor this (Str a)
           = Inr (list_ex (\<lambda>e. hasIdentifier a e \<or> isNamedAnchor a e) (descendants (element this)))"
  using assms
  by (auto simp: hasAnchor_def getElementForAnchor_quotedLiterally list_ex_iff
      find_None_iff)

text \<open>The test of \<open>snapshot.test.ts\<close> for anchors, on the model.\<close>

lemma anchor_of_the_test:
  "getElementForAnchor \<lparr>element = anchorContainer\<rparr> (Str (js ''my-anchor''))
     = Inr (Some (Element (js ''a'') [(js ''name'', js ''my-anchor'')] []))
   \<and> hasAnchor \<lparr>element = anchorContainer\<rparr> (Str (js ''my-anchor'')) = Inr True
   \<and> hasAnchor \<lparr>element = anchorContainer\<rparr> (Str (js ''other'')) = Inr False"
  by (simp add: hasAnchor_def getElementForAnchor_def anchorSelector_def querySelector_def
      anchorContainer_def matchesSelector_def getAttribute_def selector_eval scanString_def)

text \<open>
  C7. For an anchor that is \<open>undefined\<close>, \<open>null\<close> or the empty string, \<open>hasAnchor\<close> returns
  false and \<open>getElementForAnchor\<close> returns null, whatever the snapshot holds: both return
  before a selector is built, so the subtree has no part in the result.
\<close>

theorem absent_anchor_is_no_anchor:
  "hasAnchor this Undefined = Inr False \<and> hasAnchor this Null = Inr False
   \<and> hasAnchor this (Str []) = Inr False
   \<and> getElementForAnchor this Undefined = Inr None \<and> getElementForAnchor this Null = Inr None
   \<and> getElementForAnchor this (Str []) = Inr None"
  by (simp add: hasAnchor_def getElementForAnchor_def)

text \<open>
  C5, as the code has it. For a non-empty anchor that the quoted string denotes as
  written, \<open>getElementForAnchor\<close> returns the first descendant in document order that has
  the anchor as its identifier or is an \<open>a\<close> element with the anchor as its name. The
  two kinds of match are one selector list, so neither has precedence: the earlier
  element wins. When no descendant has the identifier, the result is the first named
  anchor; when no descendant is a named anchor, it is the first element with the
  identifier.
\<close>

theorem getElementForAnchor_first_in_document_order:
  assumes "a \<noteq> []" "quotedLiterally a"
  shows "getElementForAnchor this (Str a)
           = Inr (find (\<lambda>e. hasIdentifier a e \<or> isNamedAnchor a e) (descendants (element this)))
         \<and> (\<not> list_ex (hasIdentifier a) (descendants (element this)) \<longrightarrow>
              getElementForAnchor this (Str a)
                = Inr (find (isNamedAnchor a) (descendants (element this))))
         \<and> (\<not> list_ex (isNamedAnchor a) (descendants (element this)) \<longrightarrow>
              getElementForAnchor this (Str a)
                = Inr (find (hasIdentifier a) (descendants (element this))))"
proof -
  have main: "getElementForAnchor this (Str a)
           = Inr (find (\<lambda>e. hasIdentifier a e \<or> isNamedAnchor a e) (descendants (element this)))"
    using assms by (rule getElementForAnchor_quotedLiterally)
  have noId: "find (\<lambda>e. hasIdentifier a e \<or> isNamedAnchor a e) (descendants (element this))
              = find (isNamedAnchor a) (descendants (element this))"
    if "\<not> list_ex (hasIdentifier a) (descendants (element this))"
    using that by (intro find_cong_on_set) (auto simp: list_ex_iff)
  have noName: "find (\<lambda>e. hasIdentifier a e \<or> isNamedAnchor a e) (descendants (element this))
              = find (hasIdentifier a) (descendants (element this))"
    if "\<not> list_ex (isNamedAnchor a) (descendants (element this))"
    using that by (intro find_cong_on_set) (auto simp: list_ex_iff)
  from main noId noName show ?thesis by simp
qed

theorem getElementForAnchor_first_in_document_order_witness:
  "js ''top'' \<noteq> [] \<and> quotedLiterally (js ''top'')
   \<and> getElementForAnchor \<lparr>element = nameBeforeId\<rparr> (Str (js ''top''))
       = Inr (Some (Element (js ''a'') [(js ''name'', js ''top'')] []))"
proof -
  have h1: "js ''top'' \<noteq> []" by (simp add: js_def)
  have h2: "quotedLiterally (js ''top'')"
    by (simp add: quotedLiterally_def js_def rewrittenByPreprocessing_def isHighSurrogate_def
        isLowSurrogate_def)
  have "find (\<lambda>e. hasIdentifier (js ''top'') e \<or> isNamedAnchor (js ''top'') e)
          (descendants (element \<lparr>element = nameBeforeId\<rparr>))
        = Some (Element (js ''a'') [(js ''name'', js ''top'')] [])"
    by (simp add: nameBeforeId_def hasIdentifier_def isNamedAnchor_def getAttribute_def js_def)
  with h1 h2
    getElementForAnchor_first_in_document_order [OF h1 h2, of "\<lparr>element = nameBeforeId\<rparr>"]
  show ?thesis by simp
qed

text \<open>
  C5 as stated fails on the document \<open>nameBeforeId\<close>: its subtree holds an element with
  the identifier \<open>top\<close> and, before it in document order, an \<open>a\<close> element named
  \<open>top\<close>; \<open>getElementForAnchor\<close> returns the named anchor, which has no identifier.
\<close>

theorem getElementForAnchor_name_before_id_counterexample:
  "getElementForAnchor \<lparr>element = nameBeforeId\<rparr> (Str (js ''top''))
     = Inr (Some (Element (js ''a'') [(js ''name'', js ''top'')] []))
   \<and> \<not> hasIdentifier (js ''top'') (Element (js ''a'') [(js ''name'', js ''top'')] [])
   \<and> Element (js ''h1'') [(js ''id'', js ''top'')] [] \<in> set (descendants nameBeforeId)
   \<and> hasIdentifier (js ''top'') (Element (js ''h1'') [(js ''id'', js ''top'')] [])"
  by (simp add: getElementForAnchor_def anchorSelector_def querySelector_def nameBeforeId_def
      matchesSelector_def getAttribute_def hasIdentifier_def selector_eval scanString_def)

text \<open>
  C6 says that \<open>hasAnchor\<close> and \<open>getElementForAnchor\<close> return normally for every
  string. At an anchor with an apostrophe they do not. The document has a heading
  whose identifier is \<open>what's-new\<close>. The selector built for that anchor ends its first
  string at the apostrophe, an identifier and a second string follow inside the
  brackets, and \<open>querySelector\<close> throws: neither method returns.
\<close>

theorem anchor_with_apostrophe_throws:
  "Element (js ''h2'') [(js ''id'', js ''what's-new'')] [] \<in> set (descendants apostropheDocument)
   \<and> hasIdentifier (js ''what's-new'') (Element (js ''h2'') [(js ''id'', js ''what's-new'')] [])
   \<and> getElementForAnchor \<lparr>element = apostropheDocument\<rparr> (Str (js ''what's-new''))
       = Inl SyntaxError
   \<and> hasAnchor \<lparr>element = apostropheDocument\<rparr> (Str (js ''what's-new'')) = Inl SyntaxError"
  by (simp add: hasAnchor_def getElementForAnchor_def anchorSelector_def querySelector_def
      apostropheDocument_def hasIdentifier_def getAttribute_def selector_eval scanString_def)

subsection \<open>Permanent elements\<close>

text \<open>
  For identifiers that are CSS identifiers the lookups do what their names say:
  \<open>queryPermanentElementsAll\<close> returns the permanent elements in document order and
  \<open>getPermanentElementById\<close> the first permanent element with the identifier.
\<close>

lemma isIdentChar_ascii: "isIdentChar c \<Longrightarrow> \<not> beyondAsciiIdent c"
  unfolding isIdentChar_def isIdentStart_def beyondAsciiIdent_def
  by unat_arith

lemma isIdentChar_not_rewritten: "isIdentChar c \<Longrightarrow> \<not> rewrittenByPreprocessing c"
  unfolding isIdentChar_def isIdentStart_def rewrittenByPreprocessing_def
  by unat_arith

lemma isIdentChar_not_surrogate:
  "isIdentChar c \<Longrightarrow> \<not> isHighSurrogate c \<and> \<not> isLowSurrogate c"
  unfolding isIdentChar_def isIdentStart_def isHighSurrogate_def isLowSurrogate_def
  by unat_arith

lemma scanIdent_cssIdentifier:
  assumes "cssIdentifier i"
  shows "scanIdent (i @ 0x5B # r) = Inr (Some (i, 0x5B # r))"
proof -
  from assms obtain c cs where i: "i = c # cs" by (cases i) (auto simp: cssIdentifier_def)
  from assms have all: "\<And>x. x \<in> set i \<Longrightarrow> isIdentChar x"
    by (simp add: cssIdentifier_def list_all_iff)
  have nb: "\<not> beyondAsciiIdent c" using all i isIdentChar_ascii by simp
  have start: "isIdentStart c \<or> (c = 0x2D \<and> cs @ 0x5B # r \<noteq> [] \<and> isIdentStart (hd (cs @ 0x5B # r)))"
    using assms i by (auto simp: cssIdentifier_def)
  have stop: "\<not> isIdentChar (0x5B :: 16 word)"
    by (simp add: isIdentChar_def isIdentStart_def)
  have tw: "takeWhile isIdentChar (i @ 0x5B # r) = i" "dropWhile isIdentChar (i @ 0x5B # r) = 0x5B # r"
    using all stop by (simp_all add: takeWhile_append2 dropWhile_append2)
  have nb2: "\<not> beyondAsciiIdent (0x5B :: 16 word)"
    by (simp add: beyondAsciiIdent_def)
  have "scanIdent ((c # cs) @ 0x5B # r) = Inr (Some (c # cs, 0x5B # r))"
    using nb start tw nb2 unfolding i scanIdent_def by (simp add: Let_def)
  then show ?thesis by (simp add: i)
qed

lemma parseSelector_permanent:
  "parseSelector (js ''[id][data-turbo-permanent]'')
     = Inr [[AttrPresent (js ''id''), AttrPresent (js ''data-turbo-permanent'')]]"
  by (simp add: selector_eval)

lemma parseSubclasses_permanent_marker:
  "parseSubclasses (js ''[data-turbo-permanent]'') acc
     = Inr (acc @ [AttrPresent (js ''data-turbo-permanent'')], [])"
  by (simp add: selector_eval)

lemma parseSelectorList_permanent_by_id:
  assumes "cssIdentifier i"
  shows "parseSelectorList (js ''#'' @ i @ js ''[data-turbo-permanent]'')
     = Inr [[IdSelector i, AttrPresent (js ''data-turbo-permanent'')]]"
proof -
  let ?m = "js ''[data-turbo-permanent]''"
  obtain r where m: "?m = 0x5B # r" by (simp add: js_def)
  have s1: "scanIdent (i @ ?m) = Inr (Some (i, ?m))"
    unfolding m by (rule scanIdent_cssIdentifier [OF assms])
  have ws: "skipWhitespace (0x23 # i @ ?m) = 0x23 # i @ ?m"
    by (simp add: skipWhitespace_def isCssWhitespace_def)
  have wsnil: "skipWhitespace [] = []"
    by (simp add: skipWhitespace_def)
  have s0: "scanIdent (0x23 # i @ ?m) = Inr None"
    by (simp add: scanIdent_def beyondAsciiIdent_def isIdentStart_def)
  have sub: "parseSubclasses (0x23 # i @ ?m) [] = Inr ([IdSelector i, AttrPresent (js ''data-turbo-permanent'')], [])"
    by (subst parseSubclasses.simps) (simp add: s1 parseSubclasses_permanent_marker)
  have comp: "parseCompoundSelector (0x23 # i @ ?m)
      = Inr ([IdSelector i, AttrPresent (js ''data-turbo-permanent'')], [])"
    by (simp add: parseCompoundSelector_def s0 sub)
  have "parseSelectorList (0x23 # i @ ?m) = Inr [[IdSelector i, AttrPresent (js ''data-turbo-permanent'')]]"
    by (subst parseSelectorList.simps) (simp add: ws comp wsnil)
  then show ?thesis by (simp add: js_def)
qed

lemma permanent_by_id_not_rewritten:
  assumes "cssIdentifier i"
  shows "\<not> list_ex rewrittenByPreprocessing (js ''#'' @ i @ js ''[data-turbo-permanent]'')"
    and "\<not> hasLoneSurrogate (js ''#'' @ i @ js ''[data-turbo-permanent]'')"
proof -
  from assms have "\<And>x. x \<in> set i \<Longrightarrow> \<not> rewrittenByPreprocessing x"
    using isIdentChar_not_rewritten by (auto simp: cssIdentifier_def list_all_iff)
  then show "\<not> list_ex rewrittenByPreprocessing (js ''#'' @ i @ js ''[data-turbo-permanent]'')"
    by (auto simp: list_ex_iff js_def rewrittenByPreprocessing_def)
  from assms have "\<And>x. x \<in> set i \<Longrightarrow> \<not> isHighSurrogate x \<and> \<not> isLowSurrogate x"
    using isIdentChar_not_surrogate by (auto simp: cssIdentifier_def list_all_iff)
  then have "list_all (\<lambda>c. \<not> isHighSurrogate c \<and> \<not> isLowSurrogate c)
               (js ''#'' @ i @ js ''[data-turbo-permanent]'')"
    by (auto simp: list_all_iff js_def isHighSurrogate_def isLowSurrogate_def)
  then show "\<not> hasLoneSurrogate (js ''#'' @ i @ js ''[data-turbo-permanent]'')"
    by (rule no_surrogate_no_lone)
qed

lemma getPermanentElementById_cssIdentifier:
  assumes "cssIdentifier i"
  shows "getPermanentElementById node i = Inr (find (permanentWithId i) (descendants node))"
proof -
  have "matchesSelector [[IdSelector i, AttrPresent (js ''data-turbo-permanent'')]]
          = permanentWithId i"
    by (rule ext) (simp add: matchesSelector_def permanentWithId_def)
  then show ?thesis
    using permanent_by_id_not_rewritten [OF assms] parseSelectorList_permanent_by_id [OF assms]
    by (simp add: getPermanentElementById_def querySelector_def parseSelector_def)
qed

lemma queryPermanentElementsAll_filter:
  "queryPermanentElementsAll node = Inr (filter isPermanent (descendants node))"
proof -
  have "matchesSelector [[AttrPresent (js ''id''), AttrPresent (js ''data-turbo-permanent'')]]
          = isPermanent"
    by (rule ext) (simp add: matchesSelector_def isPermanent_def)
  then show ?thesis
    by (simp add: queryPermanentElementsAll_def querySelectorAll_def parseSelector_permanent)
qed

lemma find_filter: "find P (filter Q xs) = find (\<lambda>x. Q x \<and> P x) xs"
  by (induction xs) auto

lemma find_None_iff_set: "find P xs = None \<longleftrightarrow> (\<forall>x \<in> set xs. \<not> P x)"
  by (induction xs) auto

text \<open>
  The map, when the identifiers of the permanent elements of the current snapshot are
  CSS identifiers other than \<open>__proto__\<close> and no two are the same: it has an entry for
  exactly the identifiers with a permanent element in both snapshots, and the entry
  is the pair of the two elements.
\<close>

lemma permanent_and_id: "(isPermanent e \<and> elementId e = k) = permanentWithId k e"
  by (auto simp: isPermanent_def elementId_def permanentWithId_def split: option.splits)

lemma permanentElementMapLoop_result:
  assumes "\<forall>c \<in> set cs. cssIdentifier (elementId c) \<and> elementId c \<noteq> js ''__proto__''"
    and "distinct (map elementId cs)"
  shows "\<exists>m'. permanentElementMapLoop snapshot cs m = Inr m'
           \<and> prototypeSetTo m' = prototypeSetTo m
           \<and> (\<forall>k. ownProperties m' k =
                 (case find (\<lambda>c. elementId c = k) cs of
                    None \<Rightarrow> ownProperties m k
                  | Some c \<Rightarrow>
                      (case find (permanentWithId k) (descendants (element snapshot)) of
                         None \<Rightarrow> ownProperties m k
                       | Some n \<Rightarrow> Some (c, n))))"
  using assms
proof (induction cs arbitrary: m)
  case Nil
  then show ?case by simp
next
  case (Cons c cs)
  let ?i = "elementId c"
  from Cons.prems have ident: "cssIdentifier ?i" and np: "?i \<noteq> js ''__proto__''"
    and rest: "\<forall>c \<in> set cs. cssIdentifier (elementId c) \<and> elementId c \<noteq> js ''__proto__''"
    and dist: "distinct (map elementId cs)" and fresh: "?i \<notin> elementId ` set cs"
    by auto
  from fresh have "\<forall>d \<in> set cs. elementId d \<noteq> ?i"
    by (metis image_eqI)
  then have nofind: "find (\<lambda>d. elementId d = ?i) cs = None"
    by (simp add: find_None_iff_set)
  have look: "Snapshot_getPermanentElementById snapshot ?i
                = Inr (find (permanentWithId ?i) (descendants (element snapshot)))"
    by (simp add: Snapshot_getPermanentElementById_def
        getPermanentElementById_cssIdentifier [OF ident])
  show ?case
  proof (cases "find (permanentWithId ?i) (descendants (element snapshot))")
    case None
    from Cons.IH [OF rest dist, of m] obtain m' where
      m': "permanentElementMapLoop snapshot cs m = Inr m'"
        "prototypeSetTo m' = prototypeSetTo m"
        "\<And>k. ownProperties m' k =
                 (case find (\<lambda>c. elementId c = k) cs of
                    None \<Rightarrow> ownProperties m k
                  | Some c \<Rightarrow>
                      (case find (permanentWithId k) (descendants (element snapshot)) of
                         None \<Rightarrow> ownProperties m k
                       | Some n \<Rightarrow> Some (c, n)))"
      by blast
    have "permanentElementMapLoop snapshot (c # cs) m = Inr m'"
      using look None m'(1) by simp
    moreover have "ownProperties m' k =
                 (case find (\<lambda>d. elementId d = k) (c # cs) of
                    None \<Rightarrow> ownProperties m k
                  | Some c \<Rightarrow>
                      (case find (permanentWithId k) (descendants (element snapshot)) of
                         None \<Rightarrow> ownProperties m k
                       | Some n \<Rightarrow> Some (c, n)))" for k
      using m'(3) [of k] None nofind by (cases "?i = k") (auto split: option.splits)
    ultimately show ?thesis using m'(2) by blast
  next
    case (Some n)
    let ?m1 = "assignProperty m ?i (c, n)"
    have m1: "ownProperties ?m1 = (ownProperties m)(?i \<mapsto> (c, n))"
      "prototypeSetTo ?m1 = prototypeSetTo m"
      using np by (simp_all add: assignProperty_def)
    from Cons.IH [OF rest dist, of ?m1] obtain m' where
      m': "permanentElementMapLoop snapshot cs ?m1 = Inr m'"
        "prototypeSetTo m' = prototypeSetTo ?m1"
        "\<And>k. ownProperties m' k =
                 (case find (\<lambda>c. elementId c = k) cs of
                    None \<Rightarrow> ownProperties ?m1 k
                  | Some c \<Rightarrow>
                      (case find (permanentWithId k) (descendants (element snapshot)) of
                         None \<Rightarrow> ownProperties ?m1 k
                       | Some n \<Rightarrow> Some (c, n)))"
      by blast
    have "permanentElementMapLoop snapshot (c # cs) m = Inr m'"
      using look Some m'(1) by simp
    moreover have "ownProperties m' k =
                 (case find (\<lambda>d. elementId d = k) (c # cs) of
                    None \<Rightarrow> ownProperties m k
                  | Some c \<Rightarrow>
                      (case find (permanentWithId k) (descendants (element snapshot)) of
                         None \<Rightarrow> ownProperties m k
                       | Some n \<Rightarrow> Some (c, n)))" for k
      using m'(3) [of k] Some nofind m1(1) by (cases "?i = k") (auto split: option.splits)
    ultimately show ?thesis using m'(2) m1(2) by auto
  qed
qed

lemma getPermanentElementMapForSnapshot_for_identifiers:
  assumes "\<forall>c \<in> set (filter isPermanent (descendants (element this))).
             cssIdentifier (elementId c) \<and> elementId c \<noteq> js ''__proto__''"
    and "distinct (map elementId (filter isPermanent (descendants (element this))))"
  shows "\<exists>m. getPermanentElementMapForSnapshot this snapshot = Inr m
           \<and> prototypeSetTo m = None
           \<and> (\<forall>k. ownProperties m k =
                 (case find (permanentWithId k) (descendants (element this)) of
                    None \<Rightarrow> None
                  | Some c \<Rightarrow>
                      (case find (permanentWithId k) (descendants (element snapshot)) of
                         None \<Rightarrow> None
                       | Some n \<Rightarrow> Some (c, n))))"
proof -
  let ?cs = "filter isPermanent (descendants (element this))"
  have f: "find (\<lambda>c. elementId c = k) ?cs = find (permanentWithId k) (descendants (element this))"
    for k
    by (simp add: find_filter permanent_and_id)
  have e: "ownProperties emptyObject k = None" "prototypeSetTo emptyObject = None" for k
    by (simp_all add: emptyObject_def)
  from permanentElementMapLoop_result [OF assms, of snapshot emptyObject] obtain m where
    m: "permanentElementMapLoop snapshot ?cs emptyObject = Inr m"
      "prototypeSetTo m = prototypeSetTo emptyObject"
      "\<And>k. ownProperties m k =
             (case find (\<lambda>c. elementId c = k) ?cs of
                None \<Rightarrow> ownProperties emptyObject k
              | Some c \<Rightarrow>
                  (case find (permanentWithId k) (descendants (element snapshot)) of
                     None \<Rightarrow> ownProperties emptyObject k
                   | Some n \<Rightarrow> Some (c, n)))"
    by blast
  show ?thesis
  proof (intro exI conjI allI)
    show "getPermanentElementMapForSnapshot this snapshot = Inr m"
      using m(1)
      by (simp add: getPermanentElementMapForSnapshot_def permanentElements_def
          queryPermanentElementsAll_filter)
    show "prototypeSetTo m = None"
      using m(2) e(2) by simp
    show "ownProperties m k =
             (case find (permanentWithId k) (descendants (element this)) of
                None \<Rightarrow> None
              | Some c \<Rightarrow>
                  (case find (permanentWithId k) (descendants (element snapshot)) of
                     None \<Rightarrow> None
                   | Some n \<Rightarrow> Some (c, n)))" for k
      using m(3) [of k] by (simp add: f e split: option.splits)
  qed
qed

text \<open>The test of \<open>snapshot.test.ts\<close> for the map, on the model: one entry, for the
  identifier that both roots have.\<close>

lemma permanent_map_of_the_test:
  "getPermanentElementMapForSnapshot \<lparr>element = currentRoot\<rparr> \<lparr>element = newRoot\<rparr>
     = Inr \<lparr>ownProperties =
              [js ''p1'' \<mapsto>
                 (Element (js ''div'') [(js ''id'', js ''p1''), (js ''data-turbo-permanent'', []),
                                         (js ''class'', js ''old'')] [],
                  Element (js ''div'') [(js ''id'', js ''p1''), (js ''data-turbo-permanent'', []),
                                         (js ''class'', js ''new'')] [])],
            prototypeSetTo = None\<rparr>"
  by (simp add: getPermanentElementMapForSnapshot_def permanentElements_def
      queryPermanentElementsAll_def querySelectorAll_def currentRoot_def newRoot_def
      Snapshot_getPermanentElementById_def getPermanentElementById_def querySelector_def
      elementId_def matchesSelector_def getAttribute_def emptyObject_def assignProperty_def
      selector_eval scanString_def)

text \<open>With the identifier \<open>__proto__\<close> in both snapshots the lookups succeed, and the
  assignment stores no entry.\<close>

lemma proto_identifier_stores_no_entry:
  "getPermanentElementMapForSnapshot \<lparr>element = protoRoot\<rparr> \<lparr>element = protoRoot\<rparr>
     = Inr \<lparr>ownProperties = Map.empty,
            prototypeSetTo =
              Some (Element (js ''div'') [(js ''id'', js ''__proto__''), (js ''data-turbo-permanent'', [])] [],
                    Element (js ''div'') [(js ''id'', js ''__proto__''), (js ''data-turbo-permanent'', [])] [])\<rparr>"
  by (simp add: getPermanentElementMapForSnapshot_def permanentElements_def
      queryPermanentElementsAll_def querySelectorAll_def protoRoot_def
      Snapshot_getPermanentElementById_def getPermanentElementById_def querySelector_def
      elementId_def matchesSelector_def getAttribute_def emptyObject_def assignProperty_def
      selector_eval scanString_def)

text \<open>
  C8 says that the map has an entry for every identifier with a permanent element in
  both snapshots. At an identifier that starts with a digit it has none. Both
  snapshots hold one permanent element with the identifier \<open>1\<close>. \<open>permanentElements\<close>
  finds it, and the lookup in the other snapshot builds the selector
  \<open>#1[data-turbo-permanent]\<close>, which is invalid: the call throws instead of returning
  the map with the entry for \<open>1\<close>.
\<close>

theorem numeric_identifier_throws:
  "permanentElements \<lparr>element = numericIdRoot\<rparr>
     = Inr [Element (js ''div'') [(js ''id'', js ''1''), (js ''data-turbo-permanent'', [])] []]
   \<and> permanentWithId (js ''1'')
         (Element (js ''div'') [(js ''id'', js ''1''), (js ''data-turbo-permanent'', [])] [])
   \<and> getPermanentElementMapForSnapshot \<lparr>element = numericIdRoot\<rparr>
        \<lparr>element = numericIdRoot\<rparr> = Inl SyntaxError"
  by (simp add: getPermanentElementMapForSnapshot_def permanentElements_def
      queryPermanentElementsAll_def querySelectorAll_def numericIdRoot_def permanentWithId_def
      Snapshot_getPermanentElementById_def getPermanentElementById_def querySelector_def
      elementId_def matchesSelector_def getAttribute_def selector_eval scanString_def)

subsection \<open>The children accessor\<close>

lemma perform_keeps_allocated:
  "a < nextArray st \<Longrightarrow>
     arrays (perform st op) a = arrays st a \<and> a < nextArray (perform st op)"
  by (cases op) (auto simp: children_def Array_from_def)

lemma performAll_keeps_allocated:
  "a < nextArray st \<Longrightarrow> arrays (performAll st ops) a = arrays st a"
proof (induction ops arbitrary: st)
  case Nil
  then show ?case by (simp add: performAll_def)
next
  case (Cons op ops)
  from perform_keeps_allocated [OF Cons.prems, of op]
  have "arrays (perform st op) a = arrays st a" and "a < nextArray (perform st op)"
    by simp_all
  with Cons.IH [of "perform st op"] show ?case
    by (simp add: performAll_def)
qed

text \<open>
  C9. The array that \<open>children\<close> returns holds the child elements of the root as they
  were at the call, and it still holds exactly them after any later appending and
  removing of children in the live subtree, and after further calls of \<open>children\<close>.
\<close>

theorem children_array_is_fixed:
  "contents (performAll (snd (children this st)) ops) (fst (children this st))
     = liveChildren st (element this)"
proof -
  let ?a = "nextArray st"
  let ?st1 = "snd (children this st)"
  have r: "fst (children this st) = ArrayObject ?a"
    by (simp add: children_def Array_from_def)
  have "?a < nextArray ?st1" and "arrays ?st1 ?a = Some (liveChildren st (element this))"
    by (simp_all add: children_def Array_from_def contents_def)
  with performAll_keeps_allocated [of ?a ?st1 ops]
  have "arrays (performAll ?st1 ops) ?a = Some (liveChildren st (element this))"
    by simp
  with r show ?thesis
    by (simp add: contents_def)
qed

text \<open>The live collection itself does change: after an \<open>appendChild\<close> to the root it
  ends in the new child, while the array taken before does not.\<close>

lemma live_collection_follows_appendChild:
  "contents (perform (snd (children this st)) (AppendChild (element this) child))
      (HTMLCollection (element this))
     = removeAll child (liveChildren st (element this)) @ [child]"
  by (simp add: contents_def children_def Array_from_def)

section \<open>Properties of the render state machine\<close>

named_theorems view_eval

declare View_render_def [view_eval]
declare resume_def [view_eval]
declare continueRender_def [view_eval]
declare cleanUpAfterFailure_def [view_eval]
declare clearRenderPromise_def [view_eval]
declare notifyRendered_def [view_eval]
declare finishRenderingSnapshot_def [view_eval]
declare renderSnapshot_def [view_eval]
declare prepareToRenderSnapshot_def [view_eval]
declare markAsPreview_def [view_eval]
declare invalidate_def [view_eval]
declare emit_def [view_eval]

lemma continueRender_result: "fst (continueRender r v) = rendererSettlement r"
  by (simp add: continueRender_def rendererSettlement_def prepareToRenderSnapshot_def
      renderSnapshot_def split: settlement.splits)

lemma continueRender_idle:
  "awaitingResume v = None \<Longrightarrow> idle (snd (continueRender r v))"
  by (simp add: view_eval idle_def split: settlement.splits)

lemma markerHeldThroughout_shape:
  assumes "list_all (\<lambda>e. e \<noteq> RenderPromiseSet \<and> e \<noteq> RenderPromiseCleared) mid"
  shows "markerHeldThroughout (RenderPromiseSet # mid @ [RenderPromiseCleared])"
  using assms by (simp add: markerHeldThroughout_def butlast_append)

lemma continueRender_trace:
  "\<exists>mid. trace (snd (continueRender r v)) = trace v @ mid @ [RenderPromiseCleared]
     \<and> list_all (\<lambda>e. e \<noteq> RenderPromiseSet \<and> e \<noteq> RenderPromiseCleared) mid"
  by (simp add: view_eval split: settlement.splits)

text \<open>
  C1. With \<open>shouldRender\<close>, a Renderer whose \<open>prepareToRender\<close> and \<open>render\<close> succeed and a
  Delegate that allows the render at once, \<open>render\<close> settles fulfilled and its steps are
  exactly these, in this order: the marker is set and the Delegate asked, then prepare
  (\<open>markAsPreview\<close>, \<open>renderer.prepareToRender\<close>), then \<open>renderer.render\<close>, then
  \<open>delegate.viewRenderedSnapshot\<close>, \<open>delegate.preloadOnLoadLinksForView\<close>,
  \<open>renderer.finishRendering\<close>, and last the clearing of the marker.
\<close>

theorem render_runs_steps_in_order:
  assumes "shouldRender r" "prepareToRender r = Fulfilled" "render r = Fulfilled"
    "allowsImmediateRender (delegate v) (renderMethod r)"
  shows "View_render r v =
           (Settled Fulfilled,
            v\<lparr>renderPromise := False,
              trace := trace v @
                [RenderPromiseSet, AllowsImmediateRenderAsked (renderMethod r),
                 MarkedAsPreview (isPreview r), PrepareToRenderCalled,
                 RenderCalled,
                 ViewRenderedSnapshot (isPreview r) (renderMethod r),
                 PreloadOnLoadLinksForView, FinishRenderingCalled,
                 RenderPromiseCleared]\<rparr>)"
  using assms by (simp add: view_eval Let_def)

theorem render_runs_steps_in_order_witness:
  "shouldRender pageRenderer \<and> prepareToRender pageRenderer = Fulfilled
   \<and> render pageRenderer = Fulfilled
   \<and> allowsImmediateRender (delegate (newView allowingDelegate True)) (renderMethod pageRenderer)
   \<and> trace (snd (View_render pageRenderer (newView allowingDelegate True))) =
       [RenderPromiseSet, AllowsImmediateRenderAsked (Some (js ''replace'')),
        MarkedAsPreview False, PrepareToRenderCalled, RenderCalled,
        ViewRenderedSnapshot False (Some (js ''replace'')),
        PreloadOnLoadLinksForView, FinishRenderingCalled, RenderPromiseCleared]"
proof -
  have h: "shouldRender pageRenderer" "prepareToRender pageRenderer = Fulfilled"
    "render pageRenderer = Fulfilled"
    "allowsImmediateRender (delegate (newView allowingDelegate True)) (renderMethod pageRenderer)"
    by (simp_all add: pageRenderer_def allowingDelegate_def newView_def)
  from render_runs_steps_in_order [OF h] h show ?thesis
    by (simp add: pageRenderer_def newView_def)
qed

text \<open>
  C2. \<open>render\<close> with \<open>shouldRender\<close> on a view with no render in flight (the marker is
  absent before the call). If the Delegate allows the render at once, the promise of
  \<open>render\<close> settles as the Renderer does (a rejection of \<open>prepareToRender\<close> or \<open>render\<close> is
  the rejection of the call), the view is idle again, and the trace of the call starts
  with the setting of the marker, ends with its clearing and has neither in between.
  If the Delegate intercepts, the call is pending with the marker present, and
  \<open>resume\<close> brings the same end. This holds for every settlement of the Renderer and for
  both policies on notifying after a failure.
\<close>

theorem render_promise_cleared_on_every_path:
  assumes "shouldRender r" "idle v"
  shows "(allowsImmediateRender (delegate v) (renderMethod r) \<longrightarrow>
            fst (View_render r v) = Settled (rendererSettlement r)
            \<and> idle (snd (View_render r v))
            \<and> markerHeldThroughout
                (drop (length (trace v)) (trace (snd (View_render r v)))))
         \<and> (\<not> allowsImmediateRender (delegate v) (renderMethod r) \<longrightarrow>
            fst (View_render r v) = Pending
            \<and> renderPromise (snd (View_render r v))
            \<and> fst (resume (snd (View_render r v))) = Some (rendererSettlement r)
            \<and> idle (snd (resume (snd (View_render r v))))
            \<and> markerHeldThroughout
                (drop (length (trace v)) (trace (snd (resume (snd (View_render r v)))))))"
proof -
  let ?v2 = "emit (AllowsImmediateRenderAsked (renderMethod r))
               (emit RenderPromiseSet (v\<lparr>renderPromise := True\<rparr>))"
  have none: "awaitingResume ?v2 = None"
    using assms(2) by (simp add: emit_def idle_def)
  have tr2: "trace ?v2 = trace v @ [RenderPromiseSet, AllowsImmediateRenderAsked (renderMethod r)]"
    by (simp add: emit_def)
  have del: "delegate ?v2 = delegate v"
    by (simp add: emit_def)
  from continueRender_trace [of r ?v2] obtain mid where
    mid: "trace (snd (continueRender r ?v2)) = trace ?v2 @ mid @ [RenderPromiseCleared]"
      "list_all (\<lambda>e. e \<noteq> RenderPromiseSet \<and> e \<noteq> RenderPromiseCleared) mid"
    by blast
  have held: "markerHeldThroughout (drop (length (trace v)) (trace (snd (continueRender r ?v2))))"
    using markerHeldThroughout_shape [of "AllowsImmediateRenderAsked (renderMethod r) # mid"] mid tr2
    by simp
  have allowed: "View_render r v = (Settled (fst (continueRender r ?v2)), snd (continueRender r ?v2))"
    if "allowsImmediateRender (delegate v) (renderMethod r)"
    using that assms(1) del by (simp add: View_render_def Let_def split: prod.splits)
  have deferred: "View_render r v = (Pending, ?v2\<lparr>awaitingResume := Some r\<rparr>)"
    if "\<not> allowsImmediateRender (delegate v) (renderMethod r)"
    using that assms(1) del by (simp add: View_render_def Let_def)
  have same: "?v2\<lparr>awaitingResume := Some r, awaitingResume := None\<rparr> = ?v2"
    using none by simp
  have resumed: "resume (?v2\<lparr>awaitingResume := Some r\<rparr>)
                   = (Some (fst (continueRender r ?v2)), snd (continueRender r ?v2))"
    using same by (simp add: resume_def split: prod.splits)
  have marker: "renderPromise (?v2\<lparr>awaitingResume := Some r\<rparr>)"
    by (simp add: emit_def)
  show ?thesis
    using allowed deferred resumed marker held continueRender_result [of r ?v2]
      continueRender_idle [OF none, of r]
    by simp
qed

theorem render_promise_cleared_on_every_path_witness:
  "shouldRender failingRenderer \<and> idle (newView allowingDelegate False)
   \<and> allowsImmediateRender (delegate (newView allowingDelegate False))
       (renderMethod failingRenderer)
   \<and> fst (View_render failingRenderer (newView allowingDelegate False))
       = Settled (Rejected (js ''prepare failed''))
   \<and> idle (snd (View_render failingRenderer (newView allowingDelegate False)))"
proof -
  have h: "shouldRender failingRenderer" "idle (newView allowingDelegate False)"
    by (simp_all add: failingRenderer_def pageRenderer_def newView_def idle_def)
  have a: "allowsImmediateRender (delegate (newView allowingDelegate False))
             (renderMethod failingRenderer)"
    by (simp add: allowingDelegate_def newView_def)
  have s: "rendererSettlement failingRenderer = Rejected (js ''prepare failed'')"
    by (simp add: rendererSettlement_def failingRenderer_def)
  from render_promise_cleared_on_every_path [OF h] h a s show ?thesis
    by simp
qed

text \<open>
  C3. With \<open>shouldRender\<close> and a Delegate that does not allow the render at once,
  \<open>render\<close> is pending after setting the marker and asking the Delegate: neither
  \<open>prepareToRender\<close> nor \<open>render\<close> of the Renderer has been called. When \<open>resume\<close> is
  called and the Renderer succeeds, the pipeline runs prepare, render and the finalize
  sequence in order and the promise is fulfilled; a second \<open>resume\<close> does nothing.
\<close>

theorem interception_defers_prepare_and_render:
  assumes "shouldRender r" "\<not> allowsImmediateRender (delegate v) (renderMethod r)"
  shows "fst (View_render r v) = Pending
         \<and> trace (snd (View_render r v))
             = trace v @ [RenderPromiseSet, AllowsImmediateRenderAsked (renderMethod r)]
         \<and> (prepareToRender r = Fulfilled \<and> render r = Fulfilled \<longrightarrow>
              resume (snd (View_render r v)) =
                (Some Fulfilled,
                 v\<lparr>renderPromise := False, awaitingResume := None,
                   trace := trace v @
                     [RenderPromiseSet, AllowsImmediateRenderAsked (renderMethod r),
                      MarkedAsPreview (isPreview r), PrepareToRenderCalled,
                      RenderCalled,
                      ViewRenderedSnapshot (isPreview r) (renderMethod r),
                      PreloadOnLoadLinksForView, FinishRenderingCalled,
                      RenderPromiseCleared]\<rparr>)
              \<and> resume (snd (resume (snd (View_render r v))))
                  = (None, snd (resume (snd (View_render r v)))))"
  using assms by (simp add: view_eval Let_def)

theorem interception_defers_prepare_and_render_witness:
  "shouldRender pageRenderer
   \<and> \<not> allowsImmediateRender (delegate (newView interceptingDelegate True))
         (renderMethod pageRenderer)
   \<and> prepareToRender pageRenderer = Fulfilled \<and> render pageRenderer = Fulfilled
   \<and> fst (View_render pageRenderer (newView interceptingDelegate True)) = Pending
   \<and> trace (snd (View_render pageRenderer (newView interceptingDelegate True)))
       = [RenderPromiseSet, AllowsImmediateRenderAsked (Some (js ''replace''))]
   \<and> fst (resume (snd (View_render pageRenderer (newView interceptingDelegate True))))
       = Some Fulfilled"
proof -
  let ?v = "newView interceptingDelegate True"
  have h: "shouldRender pageRenderer"
    "\<not> allowsImmediateRender (delegate ?v) (renderMethod pageRenderer)"
    by (simp_all add: pageRenderer_def interceptingDelegate_def newView_def)
  have ok: "prepareToRender pageRenderer = Fulfilled \<and> render pageRenderer = Fulfilled"
    by (simp add: pageRenderer_def)
  note t = interception_defers_prepare_and_render [OF h]
  from t have p: "fst (View_render pageRenderer ?v) = Pending"
    by (rule conjunct1)
  from t have "trace (snd (View_render pageRenderer ?v))
      = trace ?v @ [RenderPromiseSet, AllowsImmediateRenderAsked (renderMethod pageRenderer)]"
    by (elim conjE)
  then have tr: "trace (snd (View_render pageRenderer ?v))
      = [RenderPromiseSet, AllowsImmediateRenderAsked (Some (js ''replace''))]"
    by (simp add: newView_def pageRenderer_def)
  from t ok have "fst (resume (snd (View_render pageRenderer ?v))) = Some Fulfilled"
    by (elim conjE impE) simp_all
  with h ok p tr show ?thesis
    by (intro conjI) simp_all
qed

text \<open>
  C4. Without \<open>shouldRender\<close> and with \<open>willRender\<close>, \<open>render\<close> calls
  \<open>invalidate(renderer.reloadReason)\<close>, which notifies \<open>delegate.viewInvalidated\<close> with that
  reason, and returns: this one notification is all that happens, no prepare, no render,
  no finalize notification, and the marker is not touched.
\<close>

theorem render_invalidates_without_rendering:
  assumes "\<not> shouldRender r" "willRender r"
  shows "View_render r v = (Settled Fulfilled, invalidate (reloadReason r) v)
         \<and> invalidate (reloadReason r) v = v\<lparr>trace := trace v @ [ViewInvalidated (reloadReason r)]\<rparr>"
  using assms by (simp add: view_eval)

theorem render_invalidates_without_rendering_witness:
  "\<not> shouldRender staleRenderer \<and> willRender staleRenderer
   \<and> View_render staleRenderer (newView allowingDelegate True) =
       (Settled Fulfilled,
        \<lparr>delegate = allowingDelegate, notifiesAfterFailure = True, renderPromise = False,
         awaitingResume = None, trace = [ViewInvalidated (Some (js ''test-reason''))]\<rparr>)"
proof -
  have h: "\<not> shouldRender staleRenderer" "willRender staleRenderer"
    by (simp_all add: staleRenderer_def)
  from render_invalidates_without_rendering [OF h, of "newView allowingDelegate True"] h
  show ?thesis
    by (simp add: newView_def) (simp add: staleRenderer_def)
qed

end
